theory Spec2Isabelle
  imports Complex_Main "HOL-Library.Char_ord" "HOL-Library.List_Lexorder" "HOL-Library.Option_ord"
begin

section \<open>Values, errors and the outside world\<close>

text \<open>
  Exceptions of the Python source are values of \<open>error\<close>; a function that may raise
  returns \<open>error + 'a\<close> with \<open>Inl\<close> for the exception.
\<close>

datatype error =
    KeyError string
  | IndexError string
  | ValueError string
  | TypeError
  | OSError string
  | ReError string
  | ParseError string

text \<open>
  One element of the list \<open>re.findall\<close> returns: a string (pattern without groups or with
  one group) or a tuple of strings (several groups).
\<close>

datatype rematch = MStr string | MTuple "string list"

text \<open>
  What the dictionary \<open>found\<close> of \<open>group_panel_view\<close> holds: the integer \<open>ptr\<close> for the
  ending pattern, an element of \<open>findall\<close>'s result otherwise.
\<close>

datatype pyval = PInt int | PMatch rematch

text \<open>
  A named field of a \<open>parse.Result\<close>: a string for a field without a type, some other
  object for a converted field.
\<close>

datatype parsed = PStr string | POther

text \<open>
  The directory tree below a watched root, as \<open>os.walk\<close> sees it: a regular file, or a
  directory with its entries in the order \<open>scandir\<close> lists them.
\<close>

datatype fsnode = File | Dir "(string \<times> fsnode) list"

text \<open>
  Everything \<open>group_panel_view\<close> takes from outside the program, each a parameter since
  none is code of the repository: the file system (\<open>os.walk\<close>, \<open>os.path.getmtime\<close>, which
  raises when the file cannot be examined, \<open>open(fn).read()\<close>), the clock (\<open>time.time()\<close>,
  called once while an identity is processed, so indexed by the identity), the
  subtraction of two floats (\<open>time.time() - stamp\<close>, the double nearest to the exact
  difference), the regular expression engine (\<open>re.compile(p, re.IGNORECASE).findall(text)\<close>)
  and the third-party template parser (\<open>parse.parse\<close>, \<open>None\<close> for no match, the named
  fields otherwise). A float is the real number it stands for.
\<close>

record world =
  fs_root :: "string \<Rightarrow> fsnode option"
  getmtime :: "string \<Rightarrow> error + real"
  read_text :: "string \<Rightarrow> error + string"
  time_now :: "string \<Rightarrow> real"
  float_sub :: "real \<Rightarrow> real \<Rightarrow> real"
  re_findall :: "string \<Rightarrow> string \<Rightarrow> error + rematch list"
  parse_parse :: "string \<Rightarrow> string \<Rightarrow> error + (string \<rightharpoonup> parsed) option"

section \<open>Strings and numbers of the Python runtime\<close>

text \<open>
  \<open>s.replace(old, new)\<close> for a non-empty \<open>old\<close> (the source only calls it so): the
  occurrences of \<open>old\<close> are replaced from left to right, without overlap. The number is
  how many characters of a replaced occurrence are still to be skipped.
\<close>

fun replace_from :: "string \<Rightarrow> string \<Rightarrow> nat \<Rightarrow> string \<Rightarrow> string" where
  "replace_from old new k [] = []"
| "replace_from old new (Suc k) (c # cs) = replace_from old new k cs"
| "replace_from old new 0 (c # cs) =
     (if take (length old) (c # cs) = old
      then new @ replace_from old new (length old - 1) cs
      else c # replace_from old new 0 cs)"

definition replace :: "string \<Rightarrow> string \<Rightarrow> string \<Rightarrow> string" where
  "replace old new s = replace_from old new 0 s"

text \<open>\<open>str(n)\<close> and \<open>'{}'.format(n)\<close> for an integer.\<close>

definition digit_char :: "nat \<Rightarrow> char" where
  "digit_char n = char_of (48 + n)"

function str_nat :: "nat \<Rightarrow> string" where
  "str_nat n = (if n < 10 then [digit_char n] else str_nat (n div 10) @ [digit_char (n mod 10)])"
  by pat_completeness auto
termination
  by (relation "measure id") auto

definition str_int :: "int \<Rightarrow> string" where
  "str_int i = (if i < 0 then ''-'' @ str_nat (nat (- i)) else str_nat (nat i))"

text \<open>\<open>str(xs)\<close> for a list of integers: \<open>[1, 0, 2]\<close>.\<close>

fun join_comma :: "string list \<Rightarrow> string" where
  "join_comma [] = []"
| "join_comma [x] = x"
| "join_comma (x # y # ys) = x @ '', '' @ join_comma (y # ys)"

definition str_int_list :: "int list \<Rightarrow> string" where
  "str_int_list xs = ''['' @ join_comma (map str_int xs) @ '']''"

text \<open>\<open>s.isdigit()\<close> and \<open>int(s)\<close> on ASCII digit strings.\<close>

definition is_digit_char :: "char \<Rightarrow> bool" where
  "is_digit_char c = (48 \<le> (of_char c :: nat) \<and> (of_char c :: nat) \<le> 57)"

definition isdigit :: "string \<Rightarrow> bool" where
  "isdigit s = (s \<noteq> [] \<and> list_all is_digit_char s)"

definition int_of_digits :: "string \<Rightarrow> int" where
  "int_of_digits s = foldl (\<lambda>a c. 10 * a + (int (of_char c) - 48)) 0 s"

text \<open>\<open>int(x)\<close> for a float: truncation towards zero.\<close>

definition py_int :: "real \<Rightarrow> int" where
  "py_int x = (if 0 \<le> x then \<lfloor>x\<rfloor> else \<lceil>x\<rceil>)"

text \<open>
  \<open>d.setdefault(k, []).append(v)\<close> on a dictionary kept as an association list in
  insertion order.
\<close>

definition setdefault_append :: "('k \<times> 'v list) list \<Rightarrow> 'k \<Rightarrow> 'v \<Rightarrow> ('k \<times> 'v list) list" where
  "setdefault_append d k v =
     (if k \<in> fst ` set d
      then map (\<lambda>(k', vs). if k' = k then (k', vs @ [v]) else (k', vs)) d
      else d @ [(k, [v])])"

section \<open>Watch groups and the manager\<close>

record group =
  fnp :: string
  ending :: string
  builtin_func :: bool
  paths :: "string list"
  patterns :: "string list"
  excluded :: "string list"
  included :: "string list"

definition default_group :: group where
  "default_group =
     \<lparr>fnp = ''{name}.{ext}'', ending = ''done'', builtin_func = True, paths = [],
      patterns = [], excluded = [], included = []\<rparr>"

record config =
  version :: string
  activated_groups :: "string \<rightharpoonup> group"
  deactivated_groups :: "string \<rightharpoonup> group"

text \<open>
  A \<open>TaskManager\<close>: \<open>self.cfg\<close> in memory and the configuration last written to
  \<open>self.cfg_path\<close>. \<open>json.dump\<close> followed by \<open>json.load\<close> is taken to give the
  configuration back, and writing the file is taken to succeed.
\<close>

record taskmgr =
  cfg :: config
  disk :: config

definition save :: "taskmgr \<Rightarrow> taskmgr" where
  "save tm = tm\<lparr>disk := cfg tm\<rparr>"

text \<open>\<open>__getitem__\<close>.\<close>

definition getitem :: "taskmgr \<Rightarrow> string \<Rightarrow> error + group" where
  "getitem tm tag =
     (case activated_groups (cfg tm) tag of
        None \<Rightarrow> Inl (KeyError tag)
      | Some item \<Rightarrow> Inr item)"

text \<open>
  \<open>item\<close> is a reference into \<open>self.cfg\<close>: what a method assigns to \<open>item[...]\<close> is
  written into the configuration.
\<close>

definition setitem :: "taskmgr \<Rightarrow> string \<Rightarrow> group \<Rightarrow> taskmgr" where
  "setitem tm tag item =
     tm\<lparr>cfg := (cfg tm)\<lparr>activated_groups := (activated_groups (cfg tm))(tag \<mapsto> item)\<rparr>\<rparr>"

text \<open>An argument of type \<open>Union[AnyStr, List[AnyStr]]\<close>, and \<open>_ensure_sequential\<close>.\<close>

datatype str_or_list = One string | Many "string list"

fun ensure_sequential :: "str_or_list \<Rightarrow> string list" where
  "ensure_sequential (One s) = [s]"
| "ensure_sequential (Many xs) = xs"

text \<open>
  The methods below return the exception raised, if any, and the manager afterwards.
  \<open>list(set(xs))\<close> keeps one copy of each element in an order Python does not specify;
  \<open>remdups\<close> is one such order.
\<close>

definition config_op ::
  "taskmgr \<Rightarrow> string \<Rightarrow> string option \<Rightarrow> string option \<Rightarrow> bool option \<Rightarrow> bool option
    \<Rightarrow> bool option \<Rightarrow> string list option \<Rightarrow> string list option \<Rightarrow> error option \<times> taskmgr" where
  "config_op tm tag fnp_arg ending_arg builtin_arg remove_all_path remove_all_patterns include exclude =
     (case getitem tm tag of
        Inl e \<Rightarrow> (Some e, tm)
      | Inr item0 \<Rightarrow>
          let item1 = (case fnp_arg of None \<Rightarrow> item0 | Some f \<Rightarrow> item0\<lparr>fnp := f\<rparr>);
              item2 = (case ending_arg of None \<Rightarrow> item1 | Some e \<Rightarrow> item1\<lparr>ending := e\<rparr>);
              item3 = (case builtin_arg of None \<Rightarrow> item2 | Some b \<Rightarrow> item2\<lparr>builtin_func := b\<rparr>);
              item4 = (if remove_all_path = Some True then item3\<lparr>paths := []\<rparr> else item3);
              item5 = (if remove_all_patterns = Some True then item4\<lparr>patterns := []\<rparr> else item4);
              item6 = (case exclude of None \<Rightarrow> item5
                       | Some xs \<Rightarrow>
                           let ex = remdups (excluded item5 @ xs)
                           in item5\<lparr>excluded := ex,
                                    included := filter (\<lambda>x. x \<notin> set ex) (remdups (included item5))\<rparr>);
              item7 = (case include of None \<Rightarrow> item6
                       | Some xs \<Rightarrow>
                           let inc = remdups (included item6 @ xs)
                           in item6\<lparr>included := inc,
                                    excluded := filter (\<lambda>x. x \<notin> set inc) (remdups (excluded item6))\<rparr>)
          in (None, save (setitem tm tag item7)))"

definition add_paths ::
  "(string \<Rightarrow> string) \<Rightarrow> taskmgr \<Rightarrow> string \<Rightarrow> str_or_list \<Rightarrow> error option \<times> taskmgr" where
  "add_paths abspath tm tag ps =
     (case getitem tm tag of
        Inl e \<Rightarrow> (Some e, tm)
      | Inr item \<Rightarrow>
          (None, save (setitem tm tag
             (item\<lparr>paths := paths item @ map abspath (ensure_sequential ps)\<rparr>))))"

definition del_paths ::
  "(string \<Rightarrow> string) \<Rightarrow> taskmgr \<Rightarrow> string \<Rightarrow> str_or_list \<Rightarrow> error option \<times> taskmgr" where
  "del_paths abspath tm tag ps =
     (case getitem tm tag of
        Inl e \<Rightarrow> (Some e, tm)
      | Inr item \<Rightarrow>
          let gone = set (map abspath (ensure_sequential ps))
          in (None, save (setitem tm tag
                (item\<lparr>paths := filter (\<lambda>path. abspath path \<notin> gone) (paths item)\<rparr>))))"

definition add_patterns :: "taskmgr \<Rightarrow> string \<Rightarrow> str_or_list \<Rightarrow> error option \<times> taskmgr" where
  "add_patterns tm tag ps =
     (case getitem tm tag of
        Inl e \<Rightarrow> (Some e, tm)
      | Inr item \<Rightarrow>
          (None, save (setitem tm tag
             (item\<lparr>patterns := patterns item @ ensure_sequential ps\<rparr>))))"

definition del_patterns :: "taskmgr \<Rightarrow> string \<Rightarrow> str_or_list \<Rightarrow> error option \<times> taskmgr" where
  "del_patterns tm tag ps =
     (case getitem tm tag of
        Inl e \<Rightarrow> (Some e, tm)
      | Inr item \<Rightarrow>
          let rm_set = set (map int_of_digits (filter isdigit (ensure_sequential ps)));
              p_set = set (filter (\<lambda>p. \<not> isdigit p) (ensure_sequential ps));
              new_patterns =
                map snd (filter (\<lambda>(i, pattern). int i \<notin> rm_set \<and> pattern \<notin> p_set)
                          (enumerate 0 (patterns item)))
          in (None, save (setitem tm tag (item\<lparr>patterns := new_patterns\<rparr>))))"

text \<open>
  \<open>[item['patterns'][int(i)] for i in indices]\<close>: an index outside the list raises
  \<open>IndexError\<close>, a negative one counts from the end.
\<close>

fun pick_all :: "'a list \<Rightarrow> int list \<Rightarrow> error + 'a list" where
  "pick_all xs [] = Inr []"
| "pick_all xs (i # is) =
     (let n = int (length xs); j = (if i < 0 then n + i else i)
      in if 0 \<le> j \<and> j < n then
           (case pick_all xs is of Inl e \<Rightarrow> Inl e | Inr ys \<Rightarrow> Inr (xs ! nat j # ys))
         else Inl (IndexError ''list index out of range''))"

definition arrange :: "taskmgr \<Rightarrow> string \<Rightarrow> int list \<Rightarrow> error option \<times> taskmgr" where
  "arrange tm tag indices =
     (case getitem tm tag of
        Inl e \<Rightarrow> (Some e, tm)
      | Inr item \<Rightarrow>
          let n = length indices in
          if card (set indices) \<noteq> n then (Some (IndexError (str_int_list indices)), tm)
          else if \<exists>i\<in>set [0..<n]. int i \<notin> set indices
               then (Some (IndexError (str_int_list indices)), tm)
          else (case pick_all (patterns item) indices of
                  Inl e \<Rightarrow> (Some e, tm)
                | Inr new_patterns \<Rightarrow>
                    (None, save (setitem tm tag (item\<lparr>patterns := new_patterns\<rparr>)))))"

text \<open>
  The \<open>index\<close> argument of \<open>edit_patterns\<close>: a string, an integer, or an object of
  another type (kept as its \<open>str\<close>).
\<close>

datatype pyindex = IxStr string | IxInt int | IxOther string

definition edit_patterns :: "taskmgr \<Rightarrow> string \<Rightarrow> pyindex \<Rightarrow> string \<Rightarrow> error option \<times> taskmgr" where
  "edit_patterns tm tag index p =
     (case getitem tm tag of
        Inl e \<Rightarrow> (Some e, tm)
      | Inr item \<Rightarrow>
          (case (case index of
                   IxStr s \<Rightarrow> if \<not> isdigit s then Inl (IndexError s) else Inr (int_of_digits s)
                 | IxInt i \<Rightarrow> Inr i
                 | IxOther s \<Rightarrow> Inl (IndexError s)) of
             Inl e \<Rightarrow> (Some e, tm)
           | Inr i \<Rightarrow>
               if \<not> (0 \<le> i \<and> i < int (length (patterns item)))
               then (Some (IndexError (str_int i)), tm)
               else (None, save (setitem tm tag
                       (item\<lparr>patterns := (patterns item)[nat i := p]\<rparr>)))))"

section \<open>Template matching: \<open>match_file\<close>\<close>

definition match_file :: "world \<Rightarrow> string \<Rightarrow> string \<Rightarrow> error + (bool \<times> string option)" where
  "match_file w fnp_arg fn =
     (let fn_reversed = rev fn;
          fnp_reversed =
            replace ''!|*#'' ''}'' (replace ''}'' ''{'' (replace ''{'' ''!|*#'' (rev fnp_arg)))
      in case parse_parse w fnp_reversed fn_reversed of
           Inl e \<Rightarrow> Inl e
         | Inr None \<Rightarrow> Inr (False, None)
         | Inr (Some res) \<Rightarrow>
             (case res ''eman'' of
                None \<Rightarrow> Inl (KeyError ''eman'')
              | Some (PStr s) \<Rightarrow> Inr (True, Some (rev s))
              | Some POther \<Rightarrow> Inl TypeError))"

section \<open>File discovery\<close>

text \<open>\<open>os.path.join(a, b)\<close> on POSIX.\<close>

definition os_path_join :: "string \<Rightarrow> string \<Rightarrow> string" where
  "os_path_join a b =
     (if b \<noteq> [] \<and> hd b = CHR ''/'' then b
      else if a = [] \<or> last a = CHR ''/'' then a @ b
      else a @ ''/'' @ b)"

text \<open>
  \<open>os.walk(top)\<close>, top-down: the triple of a directory, then the walks of its
  sub-directories. \<open>scandir\<close> fails on a path that is not a directory; \<open>os.walk\<close> is called
  without \<open>onerror\<close>, so the failure is ignored and nothing is yielded.
\<close>

fun os_walk :: "string \<Rightarrow> fsnode \<Rightarrow> (string \<times> string list \<times> string list) list" where
  "os_walk topdir File = []"
| "os_walk topdir (Dir entries) =
     (topdir, map fst (filter (\<lambda>e. snd e \<noteq> File) entries), map fst (filter (\<lambda>e. snd e = File) entries))
     # concat (map (\<lambda>(name, node). os_walk (os_path_join topdir name) node) entries)"

definition walk :: "world \<Rightarrow> string \<Rightarrow> (string \<times> string list \<times> string list) list" where
  "walk w path = (case fs_root w path of None \<Rightarrow> [] | Some node \<Rightarrow> os_walk path node)"

text \<open>
  The \<open>fullfn\<close> values of the three nested \<open>for\<close> loops over \<open>item['paths']\<close>, in the order
  the loops visit them.
\<close>

definition candidates :: "world \<Rightarrow> string list \<Rightarrow> string list" where
  "candidates w ps =
     concat (map (\<lambda>path. concat (map (\<lambda>(dn, _, fns). map (os_path_join dn) fns) (walk w path))) ps)"

text \<open>
  The body of those loops: \<open>match_file\<close>, then \<open>logs.setdefault(matched_name, []).append(fullfn)\<close>.
  \<open>match_file\<close> returns a name whenever it returns \<open>True\<close>.
\<close>

fun group_files ::
  "world \<Rightarrow> string \<Rightarrow> (string \<times> string list) list \<Rightarrow> string list
    \<Rightarrow> error + (string \<times> string list) list" where
  "group_files w fnp_arg logs [] = Inr logs"
| "group_files w fnp_arg logs (fullfn # rest) =
     (case match_file w fnp_arg fullfn of
        Inl e \<Rightarrow> Inl e
      | Inr (ok, matched_name) \<Rightarrow>
          (case (ok, matched_name) of
             (True, Some n) \<Rightarrow> group_files w fnp_arg (setdefault_append logs n fullfn) rest
           | _ \<Rightarrow> group_files w fnp_arg logs rest))"

section \<open>The pattern probe of \<open>group_panel_view\<close>\<close>

definition esc :: string where
  "esc = [CHR 0x1B]"

definition bs :: string where
  "bs = [CHR 0x5C]"

definition epoch_pattern :: string where
  "epoch_pattern = ''epoch[^'' @ bs @ ''d]*['' @ bs @ ''d]+''"

definition iter_pattern :: string where
  "iter_pattern = ''iter[^'' @ bs @ ''d]*['' @ bs @ ''d]+''"

definition loss_pattern :: string where
  "loss_pattern = ''loss[^'' @ bs @ ''d]*['' @ bs @ ''d'' @ bs @ ''.]+''"

definition eta_pattern :: string where
  "eta_pattern =
     ''eta[^'' @ bs @ ''d'' @ bs @ ''w]*(?:['' @ bs @ ''d'' @ bs @ ''.:]+|[ ,]|days|d|hrs|hours|hour|d|mins|minutes|secs|sec|seconds)+''"

text \<open>The list \<open>patterns\<close> after the four \<open>insert(0, ...)\<close> and the insertion of the ending.\<close>

definition effective_patterns :: "group \<Rightarrow> string list" where
  "effective_patterns item =
     ending item #
       (if builtin_func item then [epoch_pattern, iter_pattern, loss_pattern, eta_pattern] else [])
       @ patterns item"

text \<open>
  The inner \<open>for i, pattern in enumerate(patterns)\<close> loop over one file's text. \<open>found\<close> is
  the dictionary before this file, \<open>tmp\<close> the dictionary of this file, \<open>remain\<close> the counter.
\<close>

fun scan_patterns ::
  "world \<Rightarrow> (string \<rightharpoonup> pyval) \<Rightarrow> string \<Rightarrow> int \<Rightarrow> (nat \<times> string) list
    \<Rightarrow> (string \<rightharpoonup> pyval) \<Rightarrow> int \<Rightarrow> error + ((string \<rightharpoonup> pyval) \<times> int)" where
  "scan_patterns w found text ptr [] tmp remain = Inr (tmp, remain)"
| "scan_patterns w found text ptr ((i, pattern) # ps) tmp remain =
     (if found pattern \<noteq> None then scan_patterns w found text ptr ps tmp remain
      else case re_findall w pattern text of
             Inl e \<Rightarrow> Inl e
           | Inr results \<Rightarrow>
               if results \<noteq> [] then
                 scan_patterns w found text ptr ps
                   (tmp(pattern \<mapsto> (if i = 0 then PInt ptr else PMatch (last results))))
                   (remain - 1)
               else scan_patterns w found text ptr ps tmp remain)"

text \<open>
  The \<open>while remain > 0 and ptr + 1 < len(fns)\<close> loop. The last argument is the part of
  \<open>fns\<close> not yet visited, \<open>fns[ptr + 1:]\<close>, so \<open>ptr + 1 < len(fns)\<close> is "this list is not
  empty". \<open>opened\<close> records every \<open>open(fn)\<close> in order.
\<close>

fun probe_loop ::
  "world \<Rightarrow> string list \<Rightarrow> (string \<rightharpoonup> pyval) \<Rightarrow> int \<Rightarrow> int \<Rightarrow> string list \<Rightarrow> string list
    \<Rightarrow> error + ((string \<rightharpoonup> pyval) \<times> string list)" where
  "probe_loop w pats found ptr remain opened [] = Inr (found, opened)"
| "probe_loop w pats found ptr remain opened (fn # rest) =
     (if remain > 0 then
        (case read_text w fn of
           Inl e \<Rightarrow> Inl e
         | Inr text \<Rightarrow>
             (case scan_patterns w found text (ptr + 1) (enumerate 0 pats) Map.empty remain of
                Inl e \<Rightarrow> Inl e
              | Inr (tmp, remain') \<Rightarrow>
                  probe_loop w pats (found ++ tmp) (ptr + 1) remain' (opened @ [fn]) rest))
      else Inr (found, opened))"

text \<open>\<open>found = {}\<close>, \<open>ptr = -1\<close>, \<open>remain = len(patterns)\<close>, then the loop.\<close>

definition probe ::
  "world \<Rightarrow> string list \<Rightarrow> string list \<Rightarrow> error + ((string \<rightharpoonup> pyval) \<times> string list)" where
  "probe w pats fns = probe_loop w pats Map.empty (- 1) (int (length pats)) [] fns"

section \<open>Classification and the lines of an item\<close>

text \<open>The condition of the \<open>continue\<close>.\<close>

definition skipped :: "group \<Rightarrow> real option \<Rightarrow> string option \<Rightarrow> string \<Rightarrow> int \<Rightarrow> bool" where
  "skipped item duration inspect one delta =
     ((inspect = None \<and>
        ((case duration of None \<Rightarrow> False
          | Some d \<Rightarrow> real_of_int delta > d \<and> one \<notin> set (included item))
         \<or> one \<in> set (excluded item)))
      \<or> (inspect \<noteq> None \<and> Some one \<noteq> inspect))"

text \<open>
  The loop that sets \<open>flag\<close> and builds \<open>item_str\<close>. \<open>' ' + found[pattern]\<close> and
  \<open>' | ' + found[pattern]\<close> raise \<open>TypeError\<close> unless the value is a string.
\<close>

fun build_item_str ::
  "(string \<rightharpoonup> pyval) \<Rightarrow> int option \<Rightarrow> (nat \<times> string) list \<Rightarrow> int option \<Rightarrow> string list
    \<Rightarrow> error + (int option \<times> string list)" where
  "build_item_str found width [] flag item_str = Inr (flag, item_str)"
| "build_item_str found width ((i, pattern) # ps) flag item_str =
     (if i = 0 then
        build_item_str found width ps
          (if found pattern = Some (PInt 0) then Some 1 else Some 0) item_str
      else
        (case found pattern of
           None \<Rightarrow> build_item_str found width ps flag item_str
         | Some (PMatch (MStr s)) \<Rightarrow>
             if item_str = [] then build_item_str found width ps flag ['' '' @ s]
             else if (case width of None \<Rightarrow> True
                      | Some wd \<Rightarrow> int (length (last item_str)) + int (length s) + 3 \<le> wd)
             then build_item_str found width ps flag
                    (butlast item_str @ [last item_str @ '' | '' @ s])
             else build_item_str found width ps flag (item_str @ ['' '' @ s])
         | Some _ \<Rightarrow> Inl TypeError))"

text \<open>The colouring loop \<open>for tp, line in enumerate(item_str)\<close>.\<close>

definition colour_lines :: "string list \<Rightarrow> string list" where
  "colour_lines item_str =
     map (\<lambda>(tp, line). (if odd tp then esc @ ''[1;37m'' @ line else line) @ esc @ ''[0m'')
       (enumerate 0 item_str)"

text \<open>The string \<open>d_str\<close> of days, hours, minutes and seconds.\<close>

definition d_str :: "int \<Rightarrow> string" where
  "d_str delta =
     (let d = delta div 86400;
          h = (delta - d * 86400) div 3600;
          m = (delta - d * 86400 - h * 3600) div 60;
          s = (delta - d * 86400 - h * 3600 - m * 60) div 1
      in (if d > 0 then str_int d @ '' days '' else [])
         @ (if h > 0 then str_int h @ '' hrs '' else [])
         @ (if m > 0 then str_int m @ '' mins '' else [])
         @ (if s > 0 then str_int s @ '' secs '' else []))"

definition header_line :: "string \<Rightarrow> int \<Rightarrow> string" where
  "header_line one delta =
     esc @ ''[1;36m['' @ one @ '']'' @ esc @ ''[0m '' @ esc @ ''[1;34m'' @ d_str delta @ ''ago'' @ esc @ ''[0m''"

text \<open>
  What one iteration of \<open>for one in sorted(logs.keys())\<close> leaves behind when it is not
  skipped: the identity, the dictionary \<open>found\<close>, the files opened, \<open>flag\<close>, and the list
  \<open>tmp\<close> appended to \<open>recs[flag]\<close>.
\<close>

record item_row =
  row_name :: string
  row_found :: "string \<rightharpoonup> pyval"
  row_opened :: "string list"
  row_flag :: "int option"
  row_lines :: "string list"

text \<open>
  \<open>sorted(logs[one], key=lambda x: os.path.getmtime(x), reverse=True)\<close> calls the key
  function once on every file, in the order of the list, before it sorts: the first call
  that raises ends the scan, and when none raises the files are sorted, stably, by
  decreasing modification time.
\<close>

fun stat_failure :: "world \<Rightarrow> string list \<Rightarrow> error option" where
  "stat_failure w [] = None"
| "stat_failure w (f # fs) =
     (case getmtime w f of Inl e \<Rightarrow> Some e | Inr t \<Rightarrow> stat_failure w fs)"

definition mtime :: "world \<Rightarrow> string \<Rightarrow> real" where
  "mtime w f = (case getmtime w f of Inl e \<Rightarrow> 0 | Inr t \<Rightarrow> t)"

definition panel_item ::
  "world \<Rightarrow> group \<Rightarrow> int option \<Rightarrow> real option \<Rightarrow> string option \<Rightarrow> string \<Rightarrow> string list
    \<Rightarrow> error + item_row option" where
  "panel_item w item width duration inspect one files =
     (case stat_failure w files of
        Some e \<Rightarrow> Inl e
      | None \<Rightarrow>
          let fns = sort_key (\<lambda>x. - mtime w x) files in
          case fns of
            [] \<Rightarrow> Inl (IndexError ''list index out of range'')
          | newest # _ \<Rightarrow>
              (case getmtime w newest of
                 Inl e \<Rightarrow> Inl e
               | Inr stamp \<Rightarrow>
                   let delta = py_int (float_sub w (time_now w one) stamp)
                   in if skipped item duration inspect one delta then Inr None
                      else
                        (case probe w (effective_patterns item) fns of
                           Inl e \<Rightarrow> Inl e
                         | Inr (found, opened) \<Rightarrow>
                             (case build_item_str found width (enumerate 0 (effective_patterns item)) None [] of
                                Inl e \<Rightarrow> Inl e
                              | Inr (flag, item_str) \<Rightarrow>
                                  Inr (Some \<lparr>row_name = one, row_found = found, row_opened = opened,
                                             row_flag = flag,
                                             row_lines =
                                               header_line one delta #
                                                 colour_lines item_str @
                                                 (case inspect of None \<Rightarrow> []
                                                  | Some _ \<Rightarrow> ('' '' @ ''---------'') # map (\<lambda>x. '' * '' @ x) fns)\<rparr>)))))"

text \<open>The loop over the identities; an exception ends it.\<close>

fun panel_loop ::
  "world \<Rightarrow> group \<Rightarrow> int option \<Rightarrow> real option \<Rightarrow> string option \<Rightarrow> (string \<times> string list) list
    \<Rightarrow> error + item_row list" where
  "panel_loop w item width duration inspect [] = Inr []"
| "panel_loop w item width duration inspect ((one, files) # rest) =
     (case panel_item w item width duration inspect one files of
        Inl e \<Rightarrow> Inl e
      | Inr r \<Rightarrow>
          (case panel_loop w item width duration inspect rest of
             Inl e \<Rightarrow> Inl e
           | Inr rows \<Rightarrow> Inr (case r of None \<Rightarrow> rows | Some row \<Rightarrow> row # rows)))"

text \<open>
  The rows of a group: \<open>self[tag]\<close>, the discovery of the files, the loop over the
  identities in sorted order.
\<close>

definition panel_rows ::
  "world \<Rightarrow> taskmgr \<Rightarrow> string \<Rightarrow> int option \<Rightarrow> real option \<Rightarrow> string option
    \<Rightarrow> error + item_row list" where
  "panel_rows w tm tag width duration inspect =
     (case getitem tm tag of
        Inl e \<Rightarrow> Inl e
      | Inr item \<Rightarrow>
          (case group_files w (fnp item) [] (candidates w (paths item)) of
             Inl e \<Rightarrow> Inl e
           | Inr logs \<Rightarrow> panel_loop w item width duration inspect (sort_key fst logs)))"

text \<open>
  \<open>group_panel_view\<close>: the rows are collected in \<open>recs\<close> under their flag, and the flags
  and their lists are returned in sorted order.
\<close>

definition group_panel_view ::
  "world \<Rightarrow> taskmgr \<Rightarrow> string \<Rightarrow> int option \<Rightarrow> real option \<Rightarrow> string option
    \<Rightarrow> error + (int option list \<times> string list list list)" where
  "group_panel_view w tm tag width duration inspect =
     (case panel_rows w tm tag width duration inspect of
        Inl e \<Rightarrow> Inl e
      | Inr rows \<Rightarrow>
          let recs = foldl (\<lambda>recs r. setdefault_append recs (row_flag r) (row_lines r)) [] rows;
              ordered = sort_key fst recs
          in Inr (map fst ordered, map snd ordered))"

section \<open>Notions used to state the properties\<close>

text \<open>
  What \<open>findall\<close> gives for a pattern on a text (nothing when it raises), whether it gives
  anything, the last match of a pattern in a file (none when the file cannot be read), and
  whether a file matches a pattern.
\<close>

definition results :: "world \<Rightarrow> string \<Rightarrow> string \<Rightarrow> rematch list" where
  "results w p text = (case re_findall w p text of Inl e \<Rightarrow> [] | Inr rs \<Rightarrow> rs)"

definition hit :: "world \<Rightarrow> string \<Rightarrow> string \<Rightarrow> bool" where
  "hit w p text = (results w p text \<noteq> [])"

definition last_match :: "world \<Rightarrow> string \<Rightarrow> string \<Rightarrow> rematch option" where
  "last_match w p f =
     (case read_text w f of Inl e \<Rightarrow> None
      | Inr text \<Rightarrow> if hit w p text then Some (last (results w p text)) else None)"

definition matches :: "world \<Rightarrow> string \<Rightarrow> string \<Rightarrow> bool" where
  "matches w p f = (last_match w p f \<noteq> None)"

text \<open>The patterns of a list that a dictionary \<open>found\<close> does not hold yet.\<close>

definition unresolved :: "(string \<rightharpoonup> pyval) \<Rightarrow> string list \<Rightarrow> string list" where
  "unresolved found pats = filter (\<lambda>p. found p = None) pats"

text \<open>
  No exception can come from reading the files or from the regular expressions: every
  file can be read and \<open>findall\<close> returns for every pattern on its text.
\<close>

definition readable :: "world \<Rightarrow> string list \<Rightarrow> string list \<Rightarrow> bool" where
  "readable w pats fns =
     list_all (\<lambda>f. case read_text w f of Inl e \<Rightarrow> False
                | Inr t \<Rightarrow> list_all (\<lambda>p. case re_findall w p t of Inl e \<Rightarrow> False | Inr rs \<Rightarrow> True) pats) fns"

text \<open>
  A world given by tables, for evaluating the functions on concrete inputs: the trees at
  the roots, the modification times (a file without one cannot be examined), the texts
  of the files (a file without a text cannot be read), one clock reading, and the results
  of \<open>findall\<close> (no match where the table has no entry). The times in the tables are
  numbers whose difference a double holds exactly, so the subtraction of floats is the
  subtraction.
\<close>

definition table_world ::
  "(string \<times> fsnode) list \<Rightarrow> (string \<times> real) list \<Rightarrow> (string \<times> string) list \<Rightarrow> real
    \<Rightarrow> ((string \<times> string) \<times> string list) list
    \<Rightarrow> (string \<Rightarrow> string \<Rightarrow> error + (string \<rightharpoonup> parsed) option) \<Rightarrow> world" where
  "table_world roots mtimes texts now tbl prs =
     \<lparr>fs_root = map_of roots,
      getmtime = (\<lambda>f. case map_of mtimes f of None \<Rightarrow> Inl (OSError f) | Some t \<Rightarrow> Inr t),
      read_text = (\<lambda>f. case map_of texts f of None \<Rightarrow> Inl (OSError f) | Some t \<Rightarrow> Inr t),
      time_now = (\<lambda>one. now),
      float_sub = (\<lambda>a b. a - b),
      re_findall = (\<lambda>p t. Inr (case map_of tbl (p, t) of None \<Rightarrow> [] | Some rs \<Rightarrow> map MStr rs)),
      parse_parse = prs\<rparr>"

section \<open>Concrete inputs\<close>

text \<open>
  A stand-in for \<open>parse.parse(format, string)\<close> on formats with at most one field
  \<open>{name}\<close> whose name is made of letters, digits and underscores and carries no format
  specification: the literal text before and after the field is compared ignoring case,
  the field takes any non-empty text, and the whole string has to match. On any other
  format the stand-in answers \<open>ParseError\<close>; what the library does there is not modelled.
\<close>

definition lower_char :: "char \<Rightarrow> char" where
  "lower_char c =
     (if 65 \<le> (of_char c :: nat) \<and> (of_char c :: nat) \<le> 90 then char_of ((of_char c :: nat) + 32) else c)"

definition ci_eq :: "string \<Rightarrow> string \<Rightarrow> bool" where
  "ci_eq a b = (map lower_char a = map lower_char b)"

definition is_name_char :: "char \<Rightarrow> bool" where
  "is_name_char c =
     (let n = (of_char c :: nat)
      in (48 \<le> n \<and> n \<le> 57) \<or> (65 \<le> n \<and> n \<le> 90) \<or> (97 \<le> n \<and> n \<le> 122) \<or> n = 95)"

definition parse_one_field :: "string \<Rightarrow> string \<Rightarrow> error + (string \<rightharpoonup> parsed) option" where
  "parse_one_field fmt s =
     (let a = takeWhile (\<lambda>c. c \<noteq> CHR ''{'') fmt;
          r = dropWhile (\<lambda>c. c \<noteq> CHR ''{'') fmt
      in if r = [] then
           (if CHR ''}'' \<in> set a then Inl (ParseError fmt)
            else Inr (if ci_eq a s then Some Map.empty else None))
         else
           let nm = takeWhile (\<lambda>c. c \<noteq> CHR ''}'') (tl r);
               r2 = dropWhile (\<lambda>c. c \<noteq> CHR ''}'') (tl r)
           in if r2 = [] \<or> nm = [] \<or> \<not> list_all is_name_char nm \<or> CHR ''}'' \<in> set a
                 \<or> CHR ''{'' \<in> set (tl r2) \<or> CHR ''}'' \<in> set (tl r2)
              then Inl (ParseError fmt)
              else
                let b = tl r2 in
                if length a + length b < length s \<and> ci_eq (take (length a) s) a
                   \<and> ci_eq (drop (length s - length b) s) b
                then Inr (Some [nm \<mapsto> PStr (take (length s - length a - length b) (drop (length a) s))])
                else Inr None)"

text \<open>
  A group watching \<open>/logs\<close> with the template \<open>{name}.log\<close>, the ending \<open>done\<close>, no
  built-in patterns and one pattern of its own.
\<close>

definition demo_item :: group where
  "demo_item =
     \<lparr>fnp = ''{name}.log'', ending = ''done'', builtin_func = False, paths = [''/logs''],
      patterns = [''loss [0-9.]+''], excluded = [], included = []\<rparr>"

text \<open>
  Two files of one identity: the newer one holds two losses, the older one a loss and the
  ending.
\<close>

definition recency_world :: world where
  "recency_world =
     table_world [] [(''new.log'', 200), (''old.log'', 100)]
       [(''new.log'', ''loss 0.5 loss 0.2''), (''old.log'', ''loss 0.9 done'')] 300
       [((''loss [0-9.]+'', ''loss 0.5 loss 0.2''), [''loss 0.5'', ''loss 0.2'']),
        ((''loss [0-9.]+'', ''loss 0.9 done''), [''loss 0.9'']),
        ((''done'', ''loss 0.9 done''), [''done''])]
       parse_one_field"

text \<open>Two files of one identity: the newer one holds a loss and the ending.\<close>

definition early_world :: world where
  "early_world =
     table_world [] [(''new.log'', 200), (''old.log'', 100)]
       [(''new.log'', ''loss 0.2 done''), (''old.log'', ''loss 0.9'')] 300
       [((''loss [0-9.]+'', ''loss 0.2 done''), [''loss 0.2'']),
        ((''done'', ''loss 0.2 done''), [''done'']),
        ((''loss [0-9.]+'', ''loss 0.9''), [''loss 0.9''])]
       parse_one_field"

text \<open>
  The value of \<open>delta\<close> for an identity whose files can all be examined:
  \<open>int(time.time() - stamp)\<close>, the float difference of the clock reading and the
  modification time of the newest file, truncated to an integer.
\<close>

definition idle_seconds :: "world \<Rightarrow> string \<Rightarrow> string list \<Rightarrow> int" where
  "idle_seconds w one files =
     py_int (float_sub w (time_now w one) (mtime w (hd (sort_key (\<lambda>x. - mtime w x) files))))"

text \<open>\<open>init_config()\<close>, and a manager that has just created its configuration file.\<close>

definition init_config :: config where
  "init_config = \<lparr>version = ''v0.0.1'', activated_groups = Map.empty, deactivated_groups = Map.empty\<rparr>"

definition init_tm :: taskmgr where
  "init_tm = \<lparr>cfg = init_config, disk = init_config\<rparr>"

text \<open>A manager whose only group, \<open>g\<close>, is the given one.\<close>

definition single_tm :: "group \<Rightarrow> taskmgr" where
  "single_tm item =
     \<lparr>cfg = init_config\<lparr>activated_groups := [''g'' \<mapsto> item]\<rparr>,
      disk = init_config\<lparr>activated_groups := [''g'' \<mapsto> item]\<rparr>\<rparr>"

text \<open>
  Three logs under \<open>/logs\<close>, read at time 1000000: \<open>a\<close> and \<open>c\<close> were written seconds
  ago, \<open>b\<close> long ago; the group excludes and includes \<open>/logs/a\<close>.
\<close>

definition filter_item :: group where
  "filter_item =
     \<lparr>fnp = ''{name}.log'', ending = ''done'', builtin_func = False, paths = [''/logs''],
      patterns = [''loss [0-9.]+''], excluded = [''/logs/a''], included = [''/logs/a'']\<rparr>"

definition filter_world :: world where
  "filter_world =
     table_world [(''/logs'', Dir [(''a.log'', File), (''b.log'', File), (''c.log'', File)])]
       [(''/logs/a.log'', 999000), (''/logs/b.log'', 100), (''/logs/c.log'', 999990)]
       [(''/logs/a.log'', ''loss 0.1''), (''/logs/b.log'', ''loss 0.2''), (''/logs/c.log'', ''loss 0.3'')]
       1000000
       [((''loss [0-9.]+'', ''loss 0.1''), [''loss 0.1'']),
        ((''loss [0-9.]+'', ''loss 0.2''), [''loss 0.2'']),
        ((''loss [0-9.]+'', ''loss 0.3''), [''loss 0.3''])]
       parse_one_field"

text \<open>
  One log under \<open>/logs\<close>, written 86400.5 seconds before the clock reading 1000000, in
  which no pattern matches.
\<close>

definition halfsec_world :: world where
  "halfsec_world =
     table_world [(''/logs'', Dir [(''run1.log'', File)])] [(''/logs/run1.log'', 1827199 / 2)]
       [(''/logs/run1.log'', ''starting'')] 1000000 [] parse_one_field"

text \<open>
  The row of an identity none of whose files matches any pattern: nothing found, every
  file opened, flag 0, and the header as the only line (followed, in an inspection, by
  the list of the files).
\<close>

definition empty_row :: "world \<Rightarrow> string option \<Rightarrow> string \<Rightarrow> string list \<Rightarrow> item_row" where
  "empty_row w inspect one files =
     (let fns = sort_key (\<lambda>x. - mtime w x) files
      in \<lparr>row_name = one, row_found = Map.empty, row_opened = fns, row_flag = Some 0,
          row_lines =
            header_line one (idle_seconds w one files) #
              (case inspect of None \<Rightarrow> []
               | Some _ \<Rightarrow> ('' '' @ ''---------'') # map (\<lambda>x. '' * '' @ x) fns)\<rparr>)"

text \<open>One log under \<open>/logs\<close>, written ten seconds ago, in which no pattern matches.\<close>

definition quiet_world :: world where
  "quiet_world =
     table_world [(''/logs'', Dir [(''run1.log'', File)])] [(''/logs/run1.log'', 999990)]
       [(''/logs/run1.log'', ''starting'')] 1000000 [] parse_one_field"

text \<open>
  Two logs under \<open>/logs\<close>, both written seconds ago: \<open>a.log\<close> cannot be read, \<open>b.log\<close>
  holds a loss.
\<close>

definition unreadable_world :: world where
  "unreadable_world =
     table_world [(''/logs'', Dir [(''a.log'', File), (''b.log'', File)])]
       [(''/logs/a.log'', 999990), (''/logs/b.log'', 999980)]
       [(''/logs/b.log'', ''loss 0.2'')] 1000000
       [((''loss [0-9.]+'', ''loss 0.2''), [''loss 0.2''])]
       parse_one_field"

text \<open>
  A stand-in for \<open>parse.parse\<close> on the format \<open>{txe}.{eman}\<close>, the one \<open>match_file\<close>
  builds from the default template \<open>{name}.{ext}\<close>. Each field takes the shortest text
  that lets the rest match: the first field ends at the first dot after its first
  character, and the second takes what follows that dot, which must not be empty. On any
  other format the stand-in answers \<open>ParseError\<close>; what the library does there is not
  modelled.
\<close>

definition parse_name_ext :: "string \<Rightarrow> string \<Rightarrow> error + (string \<rightharpoonup> parsed) option" where
  "parse_name_ext fmt s =
     (if fmt \<noteq> ''{txe}.{eman}'' then Inl (ParseError fmt)
      else case s of
             [] \<Rightarrow> Inr None
           | c # cs \<Rightarrow>
               let r = dropWhile (\<lambda>x. x \<noteq> CHR ''.'') cs
               in if r = [] \<or> tl r = [] then Inr None
                  else Inr (Some [''txe'' \<mapsto> PStr (c # takeWhile (\<lambda>x. x \<noteq> CHR ''.'') cs),
                                  ''eman'' \<mapsto> PStr (tl r)]))"

text \<open>
  A group with the default template, and three files of the identity \<open>/logs/run1\<close>: the
  newest can be read and holds a loss but not the ending, the next one cannot be read,
  the oldest holds the ending.
\<close>

definition ext_item :: group where
  "ext_item =
     \<lparr>fnp = ''{name}.{ext}'', ending = ''done'', builtin_func = False, paths = [''/logs''],
      patterns = [''loss [0-9.]+''], excluded = [], included = []\<rparr>"

definition blocked_world :: world where
  "blocked_world =
     table_world [(''/logs'', Dir [(''run1.err'', File), (''run1.log'', File), (''run1.out'', File)])]
       [(''/logs/run1.out'', 999990), (''/logs/run1.log'', 999980), (''/logs/run1.err'', 999970)]
       [(''/logs/run1.out'', ''loss 0.2''), (''/logs/run1.err'', ''done'')] 1000000
       [((''loss [0-9.]+'', ''loss 0.2''), [''loss 0.2'']), ((''done'', ''done''), [''done''])]
       parse_name_ext"

text \<open>
  A group whose own pattern list repeats the ending \<open>done\<close>, and one log under \<open>/logs\<close>,
  written ten seconds ago, that holds the ending.
\<close>

definition dup_item :: group where
  "dup_item =
     \<lparr>fnp = ''{name}.log'', ending = ''done'', builtin_func = False, paths = [''/logs''],
      patterns = [''done''], excluded = [], included = []\<rparr>"

definition dup_world :: world where
  "dup_world =
     table_world [(''/logs'', Dir [(''run1.log'', File)])] [(''/logs/run1.log'', 999990)]
       [(''/logs/run1.log'', ''epoch 5 done'')] 1000000
       [((''done'', ''epoch 5 done''), [''done''])] parse_one_field"

text \<open>
  A group whose only watched path is the regular file \<open>/logs/run1.log\<close>, written ten
  seconds ago.
\<close>

definition file_root_item :: group where
  "file_root_item =
     \<lparr>fnp = ''{name}.log'', ending = ''done'', builtin_func = False, paths = [''/logs/run1.log''],
      patterns = [], excluded = [], included = []\<rparr>"

definition file_root_world :: world where
  "file_root_world =
     table_world [(''/logs/run1.log'', File)] [(''/logs/run1.log'', 999990)]
       [(''/logs/run1.log'', ''epoch 5 done'')] 1000000
       [((''done'', ''epoch 5 done''), [''done''])] parse_one_field"

section \<open>Notions used to state the properties of \<open>match_file\<close>\<close>




section \<open>The pattern probe: lemmas\<close>


lemma scan_patterns_step:
  "scan_patterns w found text ptr ((i, p) # ps) tmp r =
     (if found p = None \<and> hit w p text then
        (case re_findall w p text of Inl e \<Rightarrow> Inl e | Inr rs \<Rightarrow>
        scan_patterns w found text ptr ps
          (tmp(p \<mapsto> (if i = 0 then PInt ptr else PMatch (last (results w p text))))) (r - 1))
      else if found p = None then
        (case re_findall w p text of Inl e \<Rightarrow> Inl e
         | Inr rs \<Rightarrow> scan_patterns w found text ptr ps tmp r)
      else scan_patterns w found text ptr ps tmp r)"
  by (simp add: hit_def results_def split: sum.splits)

lemma scan_patterns_remain:
  "scan_patterns w found text ptr ps tmp r = Inr (tmp', r') \<Longrightarrow>
   r' = r - int (length (filter (\<lambda>p. found p = None \<and> hit w p text) (map snd ps)))"
proof (induction ps arbitrary: tmp r)
  case Nil then show ?case by simp
next
  case (Cons a ps)
  obtain i p where a: "a = (i, p)" by (cases a)
  show ?case using Cons.prems unfolding a scan_patterns_step
    by (cases "re_findall w p text") (auto split: if_splits dest!: Cons.IH)
qed

lemma scan_patterns_ok:
  "scan_patterns w found text ptr ps tmp r = Inr (tmp', r') \<Longrightarrow> p \<in> snd ` set ps \<Longrightarrow>
   found p = None \<Longrightarrow> \<exists>rs. re_findall w p text = Inr rs"
proof (induction ps arbitrary: tmp r)
  case Nil then show ?case by simp
next
  case (Cons a ps)
  obtain i q where a: "a = (i, q)" by (cases a)
  show ?case using Cons.prems Cons.IH
    by (auto simp: a split: if_splits sum.splits)
qed

lemma scan_patterns_keep:
  "scan_patterns w found text ptr ps tmp r = Inr (tmp', r') \<Longrightarrow>
   p \<notin> snd ` set ps \<or> found p \<noteq> None \<or> \<not> hit w p text \<Longrightarrow> tmp' p = tmp p"
proof (induction ps arbitrary: tmp r)
  case Nil then show ?case by simp
next
  case (Cons a ps)
  obtain i q where a: "a = (i, q)" by (cases a)
  show ?case using Cons.prems Cons.IH
    by (fastforce simp: a hit_def results_def split: if_splits sum.splits)
qed

lemma scan_patterns_match:
  "scan_patterns w found text ptr ps tmp r = Inr (tmp', r') \<Longrightarrow> \<forall>a\<in>set ps. fst a \<noteq> 0 \<Longrightarrow>
   p \<in> snd ` set ps \<Longrightarrow> found p = None \<Longrightarrow> hit w p text \<Longrightarrow>
   tmp' p = Some (PMatch (last (results w p text)))"
proof (induction ps arbitrary: tmp r)
  case Nil then show ?case by simp
next
  case (Cons a ps)
  obtain i q where a: "a = (i, q)" by (cases a)
  show ?case
  proof (cases "p \<in> snd ` set ps")
    case True
    then show ?thesis using Cons.prems Cons.IH
      by (auto simp: a split: if_splits sum.splits)
  next
    case False
    then have pq: "p = q" using Cons.prems(3) by (auto simp: a)
    have i0: "i \<noteq> 0" using Cons.prems(2) by (simp add: a)
    from Cons.prems(1) obtain tmp2 r2 where
      s: "scan_patterns w found text ptr ps tmp2 r2 = Inr (tmp', r')"
      and t: "tmp2 p = Some (PMatch (last (results w p text)))"
      using Cons.prems(4,5) i0
      by (auto simp: a pq hit_def results_def split: if_splits sum.splits)
    from scan_patterns_keep[OF s, of p] False t show ?thesis by simp
  qed
qed


lemma scan_patterns_dom:
  "scan_patterns w found text ptr ps tmp r = Inr (tmp', r') \<Longrightarrow>
   (tmp' p \<noteq> None) = (tmp p \<noteq> None \<or> (p \<in> snd ` set ps \<and> found p = None \<and> hit w p text))"
proof (induction ps arbitrary: tmp r)
  case Nil then show ?case by simp
next
  case (Cons a ps)
  obtain i q where a: "a = (i, q)" by (cases a)
  show ?case using Cons.prems unfolding a scan_patterns_step
    by (cases "re_findall w q text") (auto split: if_splits dest!: Cons.IH)
qed

lemma snd_set_enumerate: "snd ` set (enumerate n xs) = set xs"
  by (metis map_snd_enumerate set_map)

lemma length_filter_split:
  "length (filter A xs) = length (filter (\<lambda>x. A x \<and> H x) xs) + length (filter (\<lambda>x. A x \<and> \<not> H x) xs)"
  by (induction xs) auto

text \<open>One file of the outer loop.\<close>

lemma one_file:
  assumes s: "scan_patterns w found text ptr (enumerate 0 pats) Map.empty r = Inr (tmp, r')"
    and inv: "r = int (length (unresolved found pats))"
  shows one_file_dom: "(tmp p \<noteq> None) = (p \<in> set pats \<and> found p = None \<and> hit w p text)"
    and one_file_inv: "r' = int (length (unresolved (found ++ tmp) pats))"
    and one_file_ok: "p \<in> set pats \<Longrightarrow> found p = None \<Longrightarrow> \<exists>rs. re_findall w p text = Inr rs"
proof -
  note sn = snd_set_enumerate
  show d: "\<And>p. (tmp p \<noteq> None) = (p \<in> set pats \<and> found p = None \<and> hit w p text)"
    using scan_patterns_dom[OF s] by (simp add: sn)
  have "unresolved (found ++ tmp) pats = filter (\<lambda>p. found p = None \<and> \<not> hit w p text) pats"
    unfolding unresolved_def
  proof (rule filter_cong)
    fix x assume "x \<in> set pats"
    then show "((found ++ tmp) x = None) = (found x = None \<and> \<not> hit w x text)"
      using d[of x] by (cases "tmp x") (auto simp: map_add_def)
  qed simp
  moreover have "r' = r - int (length (filter (\<lambda>p. found p = None \<and> hit w p text) pats))"
    using scan_patterns_remain[OF s] by (simp add: map_snd_enumerate)
  ultimately show "r' = int (length (unresolved (found ++ tmp) pats))"
    using inv length_filter_split[of "\<lambda>p. found p = None" pats "\<lambda>p. hit w p text"]
    by (simp add: unresolved_def)
  show "p \<in> set pats \<Longrightarrow> found p = None \<Longrightarrow> \<exists>rs. re_findall w p text = Inr rs"
    using scan_patterns_ok[OF s, of p] by (simp add: sn)
qed

lemma one_file_tl:
  assumes s: "scan_patterns w found text ptr (enumerate 0 pats) Map.empty r = Inr (tmp, r')"
    and p: "p \<in> set (tl pats)" "found p = None" "hit w p text"
  shows "tmp p = Some (PMatch (last (results w p text)))"
proof (cases pats)
  case Nil then show ?thesis using p by simp
next
  case (Cons p0 ps)
  have e: "enumerate 0 pats = (0, p0) # enumerate 1 ps" by (simp add: Cons)
  from s obtain tmp2 r2 where
    s2: "scan_patterns w found text ptr (enumerate 1 ps) tmp2 r2 = Inr (tmp, r')"
    unfolding e scan_patterns_step by (auto split: if_splits sum.splits)
  have ix: "\<forall>a\<in>set (enumerate 1 ps). fst a \<noteq> 0"
    by (auto simp: in_set_enumerate_eq)
  note sn = snd_set_enumerate
  show ?thesis using scan_patterns_match[OF s2 ix _ p(2,3)] p(1) by (simp add: sn Cons)
qed

lemma one_file_hd:
  assumes s: "scan_patterns w found text ptr (enumerate 0 pats) Map.empty r = Inr (tmp, r')"
    and p: "pats \<noteq> []" "hd pats \<notin> set (tl pats)" "found (hd pats) = None" "hit w (hd pats) text"
  shows "tmp (hd pats) = Some (PInt ptr)"
proof (cases pats)
  case Nil then show ?thesis using p by simp
next
  case (Cons p0 ps)
  have e: "enumerate 0 pats = (0, p0) # enumerate 1 ps" by (simp add: Cons)
  have h: "found p0 = None" "hit w p0 text" "p0 \<notin> set ps" using p by (simp_all add: Cons)
  from s h obtain r2 where
    s2: "scan_patterns w found text ptr (enumerate 1 ps) [p0 \<mapsto> PInt ptr] r2 = Inr (tmp, r')"
    unfolding e scan_patterns_step by (auto split: if_splits sum.splits)
  note sn = snd_set_enumerate
  show ?thesis using scan_patterns_keep[OF s2, of p0] h by (simp add: sn Cons)
qed

lemma probe_loop_step:
  assumes "probe_loop w pats found ptr remain opened (fn # rest) = Inr R" "remain > 0"
  obtains tx tmp remain' where "read_text w fn = Inr tx"
    "scan_patterns w found tx (ptr + 1) (enumerate 0 pats) Map.empty remain = Inr (tmp, remain')"
    "probe_loop w pats (found ++ tmp) (ptr + 1) remain' (opened @ [fn]) rest = Inr R"
  using assms by (auto split: sum.splits)


lemma unresolved_Nil_iff: "(unresolved found pats = []) = (\<forall>p\<in>set pats. found p \<noteq> None)"
  by (auto simp: unresolved_def filter_empty_conv)

lemma probe_loop_stop:
  assumes "probe_loop w pats found ptr remain opened rest = Inr (found', opened')"
    "\<not> remain > 0 \<or> rest = []"
  shows "found' = found \<and> opened' = opened"
  using assms by (cases rest) (auto split: if_splits)

lemma probe_loop_keep:
  "probe_loop w pats found ptr remain opened rest = Inr (found', opened') \<Longrightarrow>
   found p \<noteq> None \<Longrightarrow> found' p = found p"
proof (induction rest arbitrary: found ptr remain opened)
  case Nil then show ?case by simp
next
  case (Cons fn rest)
  show ?case
  proof (cases "remain > 0")
    case False
    then show ?thesis using probe_loop_stop[OF Cons.prems(1)] by simp
  next
    case True
    from probe_loop_step[OF Cons.prems(1) True] obtain tx tmp remain' where
      s: "scan_patterns w found tx (ptr + 1) (enumerate 0 pats) Map.empty remain = Inr (tmp, remain')"
      and l: "probe_loop w pats (found ++ tmp) (ptr + 1) remain' (opened @ [fn]) rest = Inr (found', opened')"
      by blast
    have "tmp p = None" using scan_patterns_dom[OF s, of p] Cons.prems(2) by auto
    then have "(found ++ tmp) p = found p" by (simp add: map_add_def)
    then show ?thesis using Cons.IH[OF l] Cons.prems(2) by simp
  qed
qed

lemma probe_loop_absent:
  "probe_loop w pats found ptr remain opened rest = Inr (found', opened') \<Longrightarrow>
   p \<notin> set pats \<Longrightarrow> found' p = found p"
proof (induction rest arbitrary: found ptr remain opened)
  case Nil then show ?case by simp
next
  case (Cons fn rest)
  show ?case
  proof (cases "remain > 0")
    case False
    then show ?thesis using probe_loop_stop[OF Cons.prems(1)] by simp
  next
    case True
    from probe_loop_step[OF Cons.prems(1) True] obtain tx tmp remain' where
      s: "scan_patterns w found tx (ptr + 1) (enumerate 0 pats) Map.empty remain = Inr (tmp, remain')"
      and l: "probe_loop w pats (found ++ tmp) (ptr + 1) remain' (opened @ [fn]) rest = Inr (found', opened')"
      by blast
    have "tmp p = None"
      using scan_patterns_dom[OF s, of p] Cons.prems(2) by (auto simp: snd_set_enumerate)
    then have "(found ++ tmp) p = found p" by (simp add: map_add_def)
    then show ?thesis using Cons.IH[OF l] Cons.prems(2) by simp
  qed
qed

lemma last_match_file:
  "read_text w fn = Inr tx \<Longrightarrow>
   last_match w p fn = (if hit w p tx then Some (last (results w p tx)) else None)"
  by (simp add: last_match_def)

lemma probe_loop_tl:
  "probe_loop w pats found ptr remain opened rest = Inr (found', opened') \<Longrightarrow>
   remain = int (length (unresolved found pats)) \<Longrightarrow>
   p \<in> set (tl pats) \<Longrightarrow> found p = None \<Longrightarrow>
   found' p = (case find (matches w p) rest of None \<Rightarrow> None
               | Some f \<Rightarrow> map_option PMatch (last_match w p f))"
proof (induction rest arbitrary: found ptr remain opened)
  case Nil then show ?case by simp
next
  case (Cons fn rest)
  have pin: "p \<in> set pats" using Cons.prems(3) by (cases pats) auto
  then have "unresolved found pats \<noteq> []"
    using Cons.prems(4) by (auto simp: unresolved_Nil_iff)
  then have pos: "remain > 0" using Cons.prems(2) by simp
  from probe_loop_step[OF Cons.prems(1) pos] obtain tx tmp remain' where
    rd: "read_text w fn = Inr tx" and
    s: "scan_patterns w found tx (ptr + 1) (enumerate 0 pats) Map.empty remain = Inr (tmp, remain')"
    and l: "probe_loop w pats (found ++ tmp) (ptr + 1) remain' (opened @ [fn]) rest = Inr (found', opened')"
    by blast
  note inv' = one_file_inv[OF s Cons.prems(2)]
  show ?case
  proof (cases "hit w p tx")
    case True
    have t: "tmp p = Some (PMatch (last (results w p tx)))"
      using one_file_tl[OF s Cons.prems(3,4) True] .
    then have "(found ++ tmp) p = Some (PMatch (last (results w p tx)))" by (simp add: map_add_def)
    then have "found' p = Some (PMatch (last (results w p tx)))"
      using probe_loop_keep[OF l, of p] by simp
    then show ?thesis using True by (simp add: matches_def last_match_file[OF rd])
  next
    case False
    have "tmp p = None" using one_file_dom[OF s Cons.prems(2), of p] False by auto
    then have n: "(found ++ tmp) p = None" using Cons.prems(4) by (simp add: map_add_def)
    show ?thesis using Cons.IH[OF l inv' Cons.prems(3) n] False
      by (simp add: matches_def last_match_file[OF rd])
  qed
qed

lemma probe_loop_hd:
  "probe_loop w pats found ptr remain opened rest = Inr (found', opened') \<Longrightarrow>
   remain = int (length (unresolved found pats)) \<Longrightarrow>
   pats \<noteq> [] \<Longrightarrow> hd pats \<notin> set (tl pats) \<Longrightarrow> found (hd pats) = None \<Longrightarrow>
   found' (hd pats) =
     (if \<exists>f\<in>set rest. matches w (hd pats) f
      then Some (PInt (ptr + 1 + int (length (takeWhile (\<lambda>f. \<not> matches w (hd pats) f) rest))))
      else None)"
proof (induction rest arbitrary: found ptr remain opened)
  case Nil then show ?case by simp
next
  case (Cons fn rest)
  let ?p = "hd pats"
  have pin: "?p \<in> set pats" using Cons.prems(3) by simp
  then have "unresolved found pats \<noteq> []"
    using Cons.prems(5) by (auto simp: unresolved_Nil_iff)
  then have pos: "remain > 0" using Cons.prems(2) by simp
  from probe_loop_step[OF Cons.prems(1) pos] obtain tx tmp remain' where
    rd: "read_text w fn = Inr tx" and
    s: "scan_patterns w found tx (ptr + 1) (enumerate 0 pats) Map.empty remain = Inr (tmp, remain')"
    and l: "probe_loop w pats (found ++ tmp) (ptr + 1) remain' (opened @ [fn]) rest = Inr (found', opened')"
    by blast
  note inv' = one_file_inv[OF s Cons.prems(2)]
  show ?case
  proof (cases "hit w ?p tx")
    case True
    have t: "tmp ?p = Some (PInt (ptr + 1))"
      using one_file_hd[OF s Cons.prems(3,4,5) True] .
    then have "(found ++ tmp) ?p = Some (PInt (ptr + 1))" by (simp add: map_add_def)
    then have "found' ?p = Some (PInt (ptr + 1))"
      using probe_loop_keep[OF l, of ?p] by simp
    then show ?thesis using True by (simp add: matches_def last_match_file[OF rd])
  next
    case False
    have "tmp ?p = None" using one_file_dom[OF s Cons.prems(2), of ?p] False by auto
    then have n: "(found ++ tmp) ?p = None" using Cons.prems(5) by (simp add: map_add_def)
    show ?thesis using Cons.IH[OF l inv' Cons.prems(3,4) n] False
      by (simp add: matches_def last_match_file[OF rd])
  qed
qed

lemma probe_loop_opened:
  "probe_loop w pats found ptr remain opened rest = Inr (found', opened') \<Longrightarrow>
   remain = int (length (unresolved found pats)) \<Longrightarrow>
   \<exists>k\<le>length rest. opened' = opened @ take k rest \<and>
     (k = length rest \<or> (\<forall>p\<in>set pats. found' p \<noteq> None)) \<and>
     (\<forall>j<k. \<exists>p\<in>set pats. found p = None \<and> (\<forall>f\<in>set (take j rest). \<not> matches w p f))"
proof (induction rest arbitrary: found ptr remain opened)
  case Nil then show ?case by simp
next
  case (Cons fn rest)
  show ?case
  proof (cases "remain > 0")
    case False
    then have u: "unresolved found pats = []" using Cons.prems(2) by simp
    have "found' = found \<and> opened' = opened"
      using probe_loop_stop[OF Cons.prems(1)] False by simp
    then show ?thesis using u by (intro exI[of _ 0]) (simp add: unresolved_Nil_iff)
  next
    case True
    from probe_loop_step[OF Cons.prems(1) True] obtain tx tmp remain' where
      rd: "read_text w fn = Inr tx" and
      s: "scan_patterns w found tx (ptr + 1) (enumerate 0 pats) Map.empty remain = Inr (tmp, remain')"
      and l: "probe_loop w pats (found ++ tmp) (ptr + 1) remain' (opened @ [fn]) rest = Inr (found', opened')"
      by blast
    note inv' = one_file_inv[OF s Cons.prems(2)]
    from Cons.IH[OF l inv'] obtain k where k: "k \<le> length rest"
      "opened' = (opened @ [fn]) @ take k rest"
      "k = length rest \<or> (\<forall>p\<in>set pats. found' p \<noteq> None)"
      "\<forall>j<k. \<exists>p\<in>set pats. (found ++ tmp) p = None \<and> (\<forall>f\<in>set (take j rest). \<not> matches w p f)"
      by blast
    from True Cons.prems(2) have "unresolved found pats \<noteq> []" by auto
    then obtain p0 where p0: "p0 \<in> set pats" "found p0 = None"
      by (auto simp: unresolved_Nil_iff)
    have c: "\<exists>p\<in>set pats. found p = None \<and> (\<forall>f\<in>set (take j (fn # rest)). \<not> matches w p f)"
      if "j < Suc k" for j
    proof (cases j)
      case 0 then show ?thesis using p0 by auto
    next
      case (Suc j')
      then have "j' < k" using that by simp
      then obtain p where p: "p \<in> set pats" "(found ++ tmp) p = None"
        "\<forall>f\<in>set (take j' rest). \<not> matches w p f" using k(4) by blast
      have f: "found p = None" and t: "tmp p = None"
        using p(2) by (auto simp: map_add_def split: option.splits)
      have "\<not> hit w p tx" using one_file_dom[OF s Cons.prems(2), of p] t p(1) f by auto
      then have "\<not> matches w p fn" by (simp add: matches_def last_match_file[OF rd])
      then show ?thesis using p f by (auto simp: Suc)
    qed
    show ?thesis
      by (rule exI[of _ "Suc k"]) (use k c in auto)
  qed
qed

lemma scan_patterns_total:
  "\<forall>p\<in>snd ` set ps. \<exists>rs. re_findall w p text = Inr rs \<Longrightarrow>
   \<exists>r. scan_patterns w found text ptr ps tmp remain = Inr r"
proof (induction ps arbitrary: tmp remain)
  case Nil then show ?case by simp
next
  case (Cons a ps)
  obtain i p where a: "a = (i, p)" by (cases a)
  from Cons.prems obtain rs where rs: "re_findall w p text = Inr rs" by (auto simp: a)
  have ih: "\<And>tmp remain. \<exists>r. scan_patterns w found text ptr ps tmp remain = Inr r"
    using Cons.IH Cons.prems by simp
  show ?case using ih by (simp add: a rs)
qed

lemma probe_loop_total:
  "\<forall>f\<in>set rest. \<exists>t. read_text w f = Inr t \<and> (\<forall>p\<in>set pats. \<exists>rs. re_findall w p t = Inr rs) \<Longrightarrow>
   \<exists>r. probe_loop w pats found ptr remain opened rest = Inr r"
proof (induction rest arbitrary: found ptr remain opened)
  case Nil then show ?case by simp
next
  case (Cons fn rest)
  from Cons.prems obtain t where t: "read_text w fn = Inr t"
    "\<forall>p\<in>set pats. \<exists>rs. re_findall w p t = Inr rs" by auto
  obtain tmp r' where
    s: "scan_patterns w found t (ptr + 1) (enumerate 0 pats) Map.empty remain = Inr (tmp, r')"
    using scan_patterns_total[of "enumerate 0 pats" w t found "ptr + 1" Map.empty remain] t(2)
    by (auto simp: snd_set_enumerate)
  have "\<exists>r. probe_loop w pats (found ++ tmp) (ptr + 1) r' (opened @ [fn]) rest = Inr r"
    using Cons.IH Cons.prems by simp
  then show ?case by (simp add: t(1) s)
qed



lemma readable_iff:
  "readable w pats fns =
   (\<forall>f\<in>set fns. \<exists>t. read_text w f = Inr t \<and> (\<forall>p\<in>set pats. \<exists>rs. re_findall w p t = Inr rs))"
proof -
  have a: "(case x of Inl e \<Rightarrow> False | Inr t \<Rightarrow> P t) = (\<exists>t. x = Inr t \<and> P t)"
    for x :: "error + 'b" and P by (cases x) auto
  show ?thesis unfolding readable_def list_all_iff a by simp
qed

lemma probe_total: "readable w pats fns \<Longrightarrow> \<exists>found opened. probe w pats fns = Inr (found, opened)"
  using probe_loop_total[of fns w pats Map.empty "- 1" "int (length pats)" "[]"]
  by (auto simp: probe_def readable_iff)

lemma probe_inv: "int (length pats) = int (length (unresolved Map.empty pats))"
  by (simp add: unresolved_def)

lemma probe_later_pattern:
  assumes "probe w pats fns = Inr (found, opened)" "0 < i" "i < length pats"
  shows "found (pats ! i) =
    (case find (matches w (pats ! i)) fns of None \<Rightarrow> None
     | Some f \<Rightarrow> map_option PMatch (last_match w (pats ! i) f))"
proof -
  have "pats ! i \<in> set (tl pats)"
    using assms(2,3) by (cases pats) (auto simp: nth_Cons' )
  then show ?thesis
    using probe_loop_tl[OF assms(1)[unfolded probe_def] probe_inv] by simp
qed

lemma probe_opened:
  assumes "probe w pats fns = Inr (found, opened)"
  shows "opened = take (length opened) fns"
    and "length opened = length fns \<or> (\<forall>p\<in>set pats. found p \<noteq> None)"
    and "\<forall>j<length opened. \<exists>p\<in>set pats. \<forall>f\<in>set (take j fns). \<not> matches w p f"
proof -
  from probe_loop_opened[OF assms[unfolded probe_def] probe_inv]
  obtain k where k: "k \<le> length fns" "opened = take k fns"
    "k = length fns \<or> (\<forall>p\<in>set pats. found p \<noteq> None)"
    "\<forall>j<k. \<exists>p\<in>set pats. (\<forall>f\<in>set (take j fns). \<not> matches w p f)"
    by auto
  have l: "length opened = k" using k(1,2) by simp
  show "opened = take (length opened) fns" using k(2) l by simp
  show "length opened = length fns \<or> (\<forall>p\<in>set pats. found p \<noteq> None)" using k(3) l by simp
  show "\<forall>j<length opened. \<exists>p\<in>set pats. \<forall>f\<in>set (take j fns). \<not> matches w p f"
    using k(4) l by simp
qed

section \<open>Properties of the pattern probe\<close>

text \<open>
  C2. Whenever the probe returns, the value it holds for a pattern that is not the first
  of the effective list (the pattern at an index \<open>i > 0\<close>) is the last element of what
  \<open>findall\<close> gives on the text of the first file, in the order of decreasing modification
  time, that matches the pattern, and the pattern is absent when no file matches; so an
  older file never decides the value once a newer one matches. The probe returns whenever
  every file can be read and every pattern compiles.
\<close>

theorem probe_recency:
  "(readable w (effective_patterns item) fns \<longrightarrow>
      (\<exists>found opened. probe w (effective_patterns item) fns = Inr (found, opened)))
   \<and> (\<forall>found opened i.
        probe w (effective_patterns item) fns = Inr (found, opened)
          \<and> 0 < i \<and> i < length (effective_patterns item) \<longrightarrow>
        found (effective_patterns item ! i) =
          (case find (matches w (effective_patterns item ! i)) fns of
             None \<Rightarrow> None
           | Some f \<Rightarrow> map_option PMatch (last_match w (effective_patterns item ! i) f)))"
  using probe_total probe_later_pattern by blast

theorem probe_recency_witness:
  "\<exists>found opened.
     probe recency_world (effective_patterns demo_item) [''new.log'', ''old.log''] = Inr (found, opened)
     \<and> found ''loss [0-9.]+'' = Some (PMatch (MStr ''loss 0.2''))"
proof -
  let ?fns = "[''new.log'', ''old.log'']"
  let ?P = "effective_patterns demo_item"
  note th = probe_recency[of recency_world demo_item ?fns]
  have r: "readable recency_world ?P ?fns"
    by (simp add: readable_def recency_world_def table_world_def effective_patterns_def demo_item_def)
  have "\<exists>found opened. probe recency_world ?P ?fns = Inr (found, opened)"
    by (rule th[THEN conjunct1, THEN mp, OF r])
  then obtain found where "\<exists>opened. probe recency_world ?P ?fns = Inr (found, opened)" ..
  then obtain opened where p: "probe recency_world ?P ?fns = Inr (found, opened)" ..
  have i: "0 < (1::nat)" "1 < length ?P"
    by (simp_all add: effective_patterns_def demo_item_def)
  have "found (?P ! 1) =
      (case find (matches recency_world (?P ! 1)) ?fns of
         None \<Rightarrow> None
       | Some f \<Rightarrow> map_option PMatch (last_match recency_world (?P ! 1) f))"
    by (rule th[THEN conjunct2, rule_format, OF conjI[OF p conjI[OF i]]])
  then have v: "found ''loss [0-9.]+'' = Some (PMatch (MStr ''loss 0.2''))"
    by (simp add: effective_patterns_def demo_item_def matches_def last_match_def hit_def
        results_def recency_world_def table_world_def)
  show ?thesis
    by (rule exI[of _ found], rule exI[of _ opened], rule conjI[OF p v])
qed

text \<open>
  C4. Whenever the probe returns, the files it opened are an initial part of the list of
  files; it stopped because the list was exhausted or because every pattern of the
  effective list was resolved; a file was opened only while some pattern had no match in
  any earlier file; hence, once the first \<open>j\<close> files match every pattern, at most \<open>j\<close> files
  are opened. The probe returns whenever every file can be read and every pattern compiles.
\<close>

theorem probe_early_exit:
  "(readable w (effective_patterns item) fns \<longrightarrow>
      (\<exists>found opened. probe w (effective_patterns item) fns = Inr (found, opened)))
   \<and> (\<forall>found opened.
        probe w (effective_patterns item) fns = Inr (found, opened) \<longrightarrow>
        opened = take (length opened) fns
        \<and> (length opened = length fns \<or> (\<forall>p\<in>set (effective_patterns item). found p \<noteq> None))
        \<and> (\<forall>j<length opened. \<exists>p\<in>set (effective_patterns item).
              \<forall>f\<in>set (take j fns). \<not> matches w p f)
        \<and> (\<forall>j. (\<forall>p\<in>set (effective_patterns item). \<exists>f\<in>set (take j fns). matches w p f)
              \<longrightarrow> length opened \<le> j))"
proof -
  let ?P = "effective_patterns item"
  have A: "readable w ?P fns \<longrightarrow> (\<exists>found opened. probe w ?P fns = Inr (found, opened))"
    using probe_total by blast
  have B: "opened = take (length opened) fns
        \<and> (length opened = length fns \<or> (\<forall>p\<in>set ?P. found p \<noteq> None))
        \<and> (\<forall>j<length opened. \<exists>p\<in>set ?P. \<forall>f\<in>set (take j fns). \<not> matches w p f)
        \<and> (\<forall>j. (\<forall>p\<in>set ?P. \<exists>f\<in>set (take j fns). matches w p f) \<longrightarrow> length opened \<le> j)"
    if p: "probe w ?P fns = Inr (found, opened)" for found opened
  proof -
    note o = probe_opened[OF p]
    have "length opened \<le> j" if a: "\<forall>p\<in>set ?P. \<exists>f\<in>set (take j fns). matches w p f" for j
    proof (rule ccontr)
      assume "\<not> length opened \<le> j"
      then have "j < length opened" by simp
      with o(3) a show False by blast
    qed
    then show ?thesis using o by blast
  qed
  show ?thesis using A B by blast
qed

theorem probe_early_exit_witness:
  "\<exists>found opened.
     probe early_world (effective_patterns demo_item) [''new.log'', ''old.log''] = Inr (found, opened)
     \<and> opened = take (length opened) [''new.log'', ''old.log''] \<and> length opened \<le> 1"
proof -
  let ?fns = "[''new.log'', ''old.log'']"
  let ?P = "effective_patterns demo_item"
  note th = probe_early_exit[of early_world demo_item ?fns]
  have r: "readable early_world ?P ?fns"
    by (simp add: readable_def early_world_def table_world_def effective_patterns_def demo_item_def)
  have "\<exists>found opened. probe early_world ?P ?fns = Inr (found, opened)"
    by (rule th[THEN conjunct1, THEN mp, OF r])
  then obtain found where "\<exists>opened. probe early_world ?P ?fns = Inr (found, opened)" ..
  then obtain opened where p: "probe early_world ?P ?fns = Inr (found, opened)" ..
  have m: "\<forall>p\<in>set ?P. \<exists>f\<in>set (take 1 ?fns). matches early_world p f"
    by (simp add: effective_patterns_def demo_item_def matches_def last_match_def hit_def
        results_def early_world_def table_world_def)
  note c = th[THEN conjunct2, rule_format, OF p]
  have a: "opened = take (length opened) ?fns" by (rule c[THEN conjunct1])
  have b: "length opened \<le> 1"
    by (rule c[THEN conjunct2, THEN conjunct2, THEN conjunct2, THEN spec, THEN mp, OF m])
  show ?thesis
    by (rule exI[of _ found], rule exI[of _ opened], rule conjI[OF p conjI[OF a b]])
qed

section \<open>Unknown tags and the drop filter\<close>

lemma getitem_absent: "activated_groups (cfg tm) tag = None \<Longrightarrow> getitem tm tag = Inl (KeyError tag)"
  by (simp add: getitem_def)

text \<open>
  C10. When the tag is not among the activated groups, each of \<open>config\<close>, \<open>add_paths\<close>,
  \<open>del_paths\<close>, \<open>add_patterns\<close>, \<open>del_patterns\<close>, \<open>arrange\<close> and \<open>edit_patterns\<close> raises
  \<open>KeyError\<close> of the tag and leaves the manager as it was, the configuration in memory and
  the file on disk alike; \<open>group_panel_view\<close>, which writes neither, raises the same error.
\<close>

theorem unknown_tag_keyerror:
  assumes "activated_groups (cfg tm) tag = None"
  shows "config_op tm tag fnp_arg ending_arg builtin_arg rm_paths rm_patterns include exclude
           = (Some (KeyError tag), tm)
       \<and> add_paths abspath tm tag ps = (Some (KeyError tag), tm)
       \<and> del_paths abspath tm tag ps = (Some (KeyError tag), tm)
       \<and> add_patterns tm tag ps = (Some (KeyError tag), tm)
       \<and> del_patterns tm tag ps = (Some (KeyError tag), tm)
       \<and> arrange tm tag indices = (Some (KeyError tag), tm)
       \<and> edit_patterns tm tag index p = (Some (KeyError tag), tm)
       \<and> group_panel_view w tm tag width duration inspect = Inl (KeyError tag)"
  using getitem_absent[OF assms]
  by (simp add: config_op_def add_paths_def del_paths_def add_patterns_def del_patterns_def
      arrange_def edit_patterns_def group_panel_view_def panel_rows_def)

theorem unknown_tag_keyerror_witness:
  "activated_groups (cfg init_tm) ''g'' = None
   \<and> (config_op init_tm ''g'' (Some ''{name}.txt'') None None None None None (Some [''x''])
           = (Some (KeyError ''g''), init_tm)
       \<and> add_paths (\<lambda>x. x) init_tm ''g'' (One ''/logs'') = (Some (KeyError ''g''), init_tm)
       \<and> del_paths (\<lambda>x. x) init_tm ''g'' (One ''/logs'') = (Some (KeyError ''g''), init_tm)
       \<and> add_patterns init_tm ''g'' (One ''/logs'') = (Some (KeyError ''g''), init_tm)
       \<and> del_patterns init_tm ''g'' (One ''/logs'') = (Some (KeyError ''g''), init_tm)
       \<and> arrange init_tm ''g'' [1, 0] = (Some (KeyError ''g''), init_tm)
       \<and> edit_patterns init_tm ''g'' (IxStr ''0'') ''loss'' = (Some (KeyError ''g''), init_tm)
       \<and> group_panel_view early_world init_tm ''g'' None None None = Inl (KeyError ''g''))"
proof -
  have a: "activated_groups (cfg init_tm) ''g'' = None"
    by (simp add: init_tm_def init_config_def)
  show ?thesis
    by (rule conjI[OF a unknown_tag_keyerror[OF a]])
qed

lemma skipped_status:
  "skipped item duration None one delta =
     (one \<in> set (excluded item)
      \<or> (\<exists>d. duration = Some d \<and> real_of_int delta > d \<and> one \<notin> set (included item)))"
  by (cases duration) (auto simp: skipped_def)

lemma stat_failure_None_iff:
  "(stat_failure w files = None) = (\<forall>f\<in>set files. \<exists>t. getmtime w f = Inr t)"
  by (induction files) (auto split: sum.splits)

lemma stat_ok_mtime:
  "stat_failure w files = None \<Longrightarrow> f \<in> set files \<Longrightarrow> getmtime w f = Inr (mtime w f)"
  by (auto simp: stat_failure_None_iff mtime_def)

lemma stat_failure_Some:
  "f \<in> set files \<Longrightarrow> getmtime w f = Inl e \<Longrightarrow> \<exists>e'. stat_failure w files = Some e'"
  using stat_failure_None_iff[of w files] by (cases "stat_failure w files") auto

lemma panel_item_stat_fail:
  "f \<in> set files \<Longrightarrow> getmtime w f = Inl e \<Longrightarrow>
   \<exists>e'. panel_item w item width duration inspect one files = Inl e'"
  using stat_failure_Some[of f files w e] by (auto simp: panel_item_def)

lemma panel_item_Inr:
  assumes "panel_item w item width duration inspect one files = Inr r"
  obtains newest rest where "stat_failure w files = None"
    "sort_key (\<lambda>x. - mtime w x) files = newest # rest"
    "getmtime w newest = Inr (mtime w newest)"
    "idle_seconds w one files = py_int (float_sub w (time_now w one) (mtime w newest))"
proof -
  from assms have s: "stat_failure w files = None"
    by (auto simp: panel_item_def split: option.splits)
  from assms s obtain newest rest where c: "sort_key (\<lambda>x. - mtime w x) files = newest # rest"
    by (auto simp: panel_item_def Let_def split: list.splits)
  have "newest \<in> set (sort_key (\<lambda>x. - mtime w x) files)" by (simp add: c)
  then have "newest \<in> set files" by simp
  from stat_ok_mtime[OF s this] have g: "getmtime w newest = Inr (mtime w newest)" .
  have "idle_seconds w one files = py_int (float_sub w (time_now w one) (mtime w newest))"
    by (simp add: idle_seconds_def c)
  with s c g show ?thesis by (rule that)
qed

lemma panel_item_name:
  assumes "panel_item w item width duration inspect one files = Inr r"
  shows "(r = None) = skipped item duration inspect one (idle_seconds w one files)
   \<and> (\<forall>row. r = Some row \<longrightarrow> row_name row = one)"
proof -
  from panel_item_Inr[OF assms] obtain newest rest where
    s: "stat_failure w files = None"
    and c: "sort_key (\<lambda>x. - mtime w x) files = newest # rest"
    and g: "getmtime w newest = Inr (mtime w newest)"
    and i: "idle_seconds w one files = py_int (float_sub w (time_now w one) (mtime w newest))"
    by blast
  show ?thesis using assms unfolding panel_item_def Let_def s c i
    by (auto simp: g split: if_splits sum.splits prod.splits)
qed

lemma panel_loop_stat_fail:
  "(one, files) \<in> set logs \<Longrightarrow> f \<in> set files \<Longrightarrow> getmtime w f = Inl e \<Longrightarrow>
   \<exists>e'. panel_loop w item width duration inspect logs = Inl e'"
proof (induction logs)
  case Nil then show ?case by simp
next
  case (Cons a logs)
  obtain one' files' where a: "a = (one', files')" by (cases a)
  show ?case
  proof (cases "(one, files) = (one', files')")
    case True
    from panel_item_stat_fail[OF Cons.prems(2,3), of item width duration inspect one]
    show ?thesis using True by (auto simp: a)
  next
    case False
    then have "(one, files) \<in> set logs" using Cons.prems(1) by (auto simp: a)
    from Cons.IH[OF this Cons.prems(2,3)] obtain e' where
      "panel_loop w item width duration inspect logs = Inl e'" by blast
    then show ?thesis by (simp add: a split: sum.splits)
  qed
qed

lemma panel_loop_names:
  "panel_loop w item width duration inspect logs = Inr rows \<Longrightarrow>
   map row_name rows =
     map fst (filter (\<lambda>(one, files). \<not> skipped item duration inspect one (idle_seconds w one files)) logs)"
proof (induction logs arbitrary: rows)
  case Nil then show ?case by simp
next
  case (Cons a logs)
  obtain one files where a: "a = (one, files)" by (cases a)
  from Cons.prems obtain r rows' where
    r: "panel_item w item width duration inspect one files = Inr r"
    and l: "panel_loop w item width duration inspect logs = Inr rows'"
    and rows: "rows = (case r of None \<Rightarrow> rows' | Some row \<Rightarrow> row # rows')"
    by (auto simp: a split: sum.splits)
  note n = panel_item_name[OF r]
  show ?case
  proof (cases r)
    case None
    then show ?thesis using n Cons.IH[OF l] rows by (simp add: a)
  next
    case (Some row)
    then show ?thesis using n Cons.IH[OF l] rows by (simp add: a)
  qed
qed


lemmas eval_match_file =
  match_file_def table_world_def replace_def parse_one_field_def ci_eq_def is_name_char_def lower_char_def

text \<open>
  C3, as the code has it. In a scan that is not an inspection, an identity is skipped
  exactly when it is excluded, or the duration is set, \<open>delta\<close> exceeds it and the identity
  is not included, where \<open>delta\<close> is the idle time truncated to whole seconds,
  \<open>int(time.time() - stamp)\<close>; an identity both included and excluded is skipped;
  whenever the scan of a group returns, its rows are, in order, those of the discovered
  identities that are not skipped; and when the modification time of a file of any
  discovered identity cannot be read, the scan raises before the filter is applied.
\<close>

theorem drop_filter:
  "(skipped item duration None one delta =
      (one \<in> set (excluded item)
       \<or> (\<exists>d. duration = Some d \<and> real_of_int delta > d \<and> one \<notin> set (included item))))
   \<and> (one \<in> set (included item) \<and> one \<in> set (excluded item) \<longrightarrow> skipped item duration None one delta)
   \<and> (\<forall>logs rows.
         getitem tm tag = Inr item
         \<and> group_files w (fnp item) [] (candidates w (paths item)) = Inr logs
         \<and> panel_rows w tm tag width duration None = Inr rows \<longrightarrow>
         map row_name rows =
           map fst (filter (\<lambda>(one, files). \<not> skipped item duration None one (idle_seconds w one files))
                     (sort_key fst logs)))
   \<and> (\<forall>logs name files f e.
         getitem tm tag = Inr item
         \<and> group_files w (fnp item) [] (candidates w (paths item)) = Inr logs
         \<and> (name, files) \<in> set logs \<and> f \<in> set files \<and> getmtime w f = Inl e \<longrightarrow>
         (\<exists>e'. panel_rows w tm tag width duration None = Inl e'))"
proof -
  have a: "skipped item duration None one delta =
      (one \<in> set (excluded item)
       \<or> (\<exists>d. duration = Some d \<and> real_of_int delta > d \<and> one \<notin> set (included item)))"
    by (rule skipped_status)
  have b: "one \<in> set (included item) \<and> one \<in> set (excluded item) \<longrightarrow> skipped item duration None one delta"
    by (simp add: a)
  have c: "map row_name rows =
           map fst (filter (\<lambda>(one, files). \<not> skipped item duration None one (idle_seconds w one files))
                     (sort_key fst logs))"
    if "getitem tm tag = Inr item"
      "group_files w (fnp item) [] (candidates w (paths item)) = Inr logs"
      "panel_rows w tm tag width duration None = Inr rows" for logs rows
    using that panel_loop_names[of w item width duration None "sort_key fst logs" rows]
    by (simp add: panel_rows_def)
  have d: "\<exists>e'. panel_rows w tm tag width duration None = Inl e'"
    if k: "getitem tm tag = Inr item"
      and g: "group_files w (fnp item) [] (candidates w (paths item)) = Inr logs"
      and m: "(name, files) \<in> set logs" "f \<in> set files" "getmtime w f = Inl e"
    for logs name files f e
  proof -
    have "(name, files) \<in> set (sort_key fst logs)" using m(1) by simp
    from panel_loop_stat_fail[OF this m(2,3)] show ?thesis
      by (simp add: panel_rows_def k g)
  qed
  show ?thesis using a b c d by blast
qed

lemma filter_candidates:
  "candidates filter_world (paths filter_item) = [''/logs/a.log'', ''/logs/b.log'', ''/logs/c.log'']"
  by (simp add: candidates_def filter_world_def table_world_def filter_item_def walk_def os_path_join_def)

lemma filter_match:
  "match_file filter_world ''{name}.log'' ''/logs/a.log'' = Inr (True, Some ''/logs/a'')"
  "match_file filter_world ''{name}.log'' ''/logs/b.log'' = Inr (True, Some ''/logs/b'')"
  "match_file filter_world ''{name}.log'' ''/logs/c.log'' = Inr (True, Some ''/logs/c'')"
  by (simp_all add: filter_world_def eval_match_file)

lemma filter_logs:
  "group_files filter_world (fnp filter_item) [] (candidates filter_world (paths filter_item)) =
     Inr [(''/logs/a'', [''/logs/a.log'']), (''/logs/b'', [''/logs/b.log'']), (''/logs/c'', [''/logs/c.log''])]"
  unfolding filter_candidates by (simp add: filter_item_def filter_match setdefault_append_def)

lemma filter_getitem: "getitem (single_tm filter_item) ''g'' = Inr filter_item"
  by (simp add: getitem_def single_tm_def)

lemma filter_sorted:
  "sort_key fst [(''/logs/a'', [''/logs/a.log'']), (''/logs/b'', [''/logs/b.log'']), (''/logs/c'', [''/logs/c.log''])]
    = [(''/logs/a'', [''/logs/a.log'']), (''/logs/b'', [''/logs/b.log'']), (''/logs/c'', [''/logs/c.log''])]"
  by simp


lemmas eval_panel_item =
  panel_item_def mtime_def skipped_def py_int_def probe_def effective_patterns_def table_world_def
  colour_lines_def

lemma filter_item_a:
  "panel_item filter_world filter_item None (Some 86400) None ''/logs/a'' [''/logs/a.log''] = Inr None"
  by (simp add: eval_panel_item filter_world_def filter_item_def)

lemma filter_item_b:
  "panel_item filter_world filter_item None (Some 86400) None ''/logs/b'' [''/logs/b.log''] = Inr None"
  by (simp add: eval_panel_item filter_world_def filter_item_def)

lemma filter_item_c:
  "\<exists>row. panel_item filter_world filter_item None (Some 86400) None ''/logs/c'' [''/logs/c.log'']
      = Inr (Some row)"
  by (simp add: eval_panel_item filter_world_def filter_item_def)

lemma filter_rows:
  "\<exists>rows. panel_rows filter_world (single_tm filter_item) ''g'' None (Some 86400) None = Inr rows"
proof -
  from filter_item_c obtain row where
    "panel_item filter_world filter_item None (Some 86400) None ''/logs/c'' [''/logs/c.log''] = Inr (Some row)" ..
  then show ?thesis
    by (simp add: panel_rows_def filter_getitem filter_logs filter_sorted filter_item_a filter_item_b)
qed

theorem drop_filter_witness:
  "skipped filter_item (Some 86400) None ''/logs/a'' 1000
   \<and> (\<exists>rows. panel_rows filter_world (single_tm filter_item) ''g'' None (Some 86400) None = Inr rows
         \<and> map row_name rows = [''/logs/c''])"
proof -
  note th = drop_filter[of filter_item "Some 86400" "''/logs/a''" 1000 "single_tm filter_item" "''g''"
      filter_world None]
  have io: "''/logs/a'' \<in> set (included filter_item) \<and> ''/logs/a'' \<in> set (excluded filter_item)"
    by (simp add: filter_item_def)
  have a: "skipped filter_item (Some 86400) None ''/logs/a'' 1000"
    by (rule th[THEN conjunct2, THEN conjunct1, THEN mp, OF io])
  from filter_rows obtain rows where
    r: "panel_rows filter_world (single_tm filter_item) ''g'' None (Some 86400) None = Inr rows" ..
  have "map row_name rows =
      map fst (filter (\<lambda>(one, files). \<not> skipped filter_item (Some 86400) None one (idle_seconds filter_world one files))
        (sort_key fst [(''/logs/a'', [''/logs/a.log'']), (''/logs/b'', [''/logs/b.log'']), (''/logs/c'', [''/logs/c.log''])]))"
    by (rule th[THEN conjunct2, THEN conjunct2, THEN conjunct1, rule_format,
          OF conjI[OF filter_getitem conjI[OF filter_logs r]]])
  then have n: "map row_name rows = [''/logs/c'']"
    unfolding filter_sorted
    by (simp add: skipped_def idle_seconds_def mtime_def py_int_def filter_world_def table_world_def filter_item_def)
  show ?thesis
    by (rule conjI[OF a], rule exI[of _ rows], rule conjI[OF r n])
qed

lemma halfsec_candidates: "candidates halfsec_world (paths demo_item) = [''/logs/run1.log'']"
  by (simp add: candidates_def halfsec_world_def table_world_def demo_item_def walk_def os_path_join_def)

lemma halfsec_match:
  "match_file halfsec_world ''{name}.log'' ''/logs/run1.log'' = Inr (True, Some ''/logs/run1'')"
  by (simp add: halfsec_world_def eval_match_file)

lemma halfsec_logs:
  "group_files halfsec_world (fnp demo_item) [] (candidates halfsec_world (paths demo_item)) =
     Inr [(''/logs/run1'', [''/logs/run1.log''])]"
  unfolding halfsec_candidates by (simp add: demo_item_def halfsec_match setdefault_append_def)

lemma demo_getitem: "getitem (single_tm demo_item) ''g'' = Inr demo_item"
  by (simp add: getitem_def single_tm_def)

lemma halfsec_row:
  "\<exists>row. panel_item halfsec_world demo_item None (Some 86400) None ''/logs/run1'' [''/logs/run1.log'']
            = Inr (Some row) \<and> row_name row = ''/logs/run1''"
  by (simp add: eval_panel_item halfsec_world_def demo_item_def)

theorem drop_filter_counterexample:
  "getmtime halfsec_world ''/logs/run1.log'' = Inr (1827199 / 2)
   \<and> time_now halfsec_world ''/logs/run1'' = 1000000
   \<and> (86400 :: real) < 1000000 - 1827199 / 2
   \<and> ''/logs/run1'' \<notin> set (included demo_item) \<union> set (excluded demo_item)
   \<and> (\<exists>row. panel_rows halfsec_world (single_tm demo_item) ''g'' None (Some 86400) None = Inr [row]
          \<and> row_name row = ''/logs/run1'')"
proof -
  have a: "getmtime halfsec_world ''/logs/run1.log'' = Inr (1827199 / 2)"
    "time_now halfsec_world ''/logs/run1'' = 1000000"
    by (simp_all add: halfsec_world_def table_world_def)
  have b: "(86400 :: real) < 1000000 - 1827199 / 2" by simp
  have c: "''/logs/run1'' \<notin> set (included demo_item) \<union> set (excluded demo_item)"
    by (simp add: demo_item_def)
  from halfsec_row obtain row where
    r: "panel_item halfsec_world demo_item None (Some 86400) None ''/logs/run1'' [''/logs/run1.log'']
            = Inr (Some row)" and n: "row_name row = ''/logs/run1''" by blast
  have p: "panel_rows halfsec_world (single_tm demo_item) ''g'' None (Some 86400) None = Inr [row]"
    by (simp add: panel_rows_def demo_getitem halfsec_logs r)
  have d: "\<exists>row. panel_rows halfsec_world (single_tm demo_item) ''g'' None (Some 86400) None = Inr [row]
          \<and> row_name row = ''/logs/run1''"
    by (rule exI[of _ row], rule conjI[OF p n])
  show ?thesis by (rule conjI[OF a(1) conjI[OF a(2) conjI[OF b conjI[OF c d]]]])
qed
section \<open>Rows of a scan: lemmas\<close>


lemma probe_nothing:
  assumes p: "probe w pats fns = Inr (found, opened)"
    and n: "\<forall>f\<in>set fns. \<forall>p\<in>set pats. \<not> matches w p f"
  shows "found = Map.empty"
proof (rule ext)
  fix q
  note l = p[unfolded probe_def]
  have nf: "find (matches w q) fns = None" if "q \<in> set pats"
    using n that by (auto simp: find_None_iff)
  consider (a) "q \<notin> set pats" | (b) "q \<in> set (tl pats)"
    | (c) "q \<in> set pats" "q \<notin> set (tl pats)"
    by blast
  then show "found q = None"
  proof cases
    case a
    then show ?thesis using probe_loop_absent[OF l, of q] by simp
  next
    case b
    then have "q \<in> set pats" by (cases pats) auto
    then show ?thesis using probe_loop_tl[OF l probe_inv b] nf by simp
  next
    case c
    then have h: "pats \<noteq> []" "hd pats = q" by (cases pats; auto)+
    show ?thesis using probe_loop_hd[OF l probe_inv h(1)] c h(2) n by auto
  qed
qed

lemma build_item_str_empty:
  "build_item_str Map.empty width ps flag item_str =
     Inr (if 0 \<in> fst ` set ps then Some 0 else flag, item_str)"
proof (induction ps arbitrary: flag)
  case Nil then show ?case by simp
next
  case (Cons a ps)
  obtain i p where a: "a = (i, p)" by (cases a)
  show ?case by (simp add: a Cons.IH)
qed

lemma build_item_str_flag_keep:
  "build_item_str found width ps flag item_str = Inr (flag', strs) \<Longrightarrow>
   \<forall>a\<in>set ps. fst a \<noteq> 0 \<Longrightarrow> flag' = flag"
proof (induction ps arbitrary: item_str)
  case Nil then show ?case by simp
next
  case (Cons a ps)
  obtain i p where a: "a = (i, p)" by (cases a)
  show ?case using Cons.prems Cons.IH
    by (auto simp: a split: option.splits pyval.splits rematch.splits if_splits)
qed

lemma build_item_str_flag:
  assumes "build_item_str found width (enumerate 0 (p0 # ps)) None [] = Inr (flag, strs)"
  shows "flag = (if found p0 = Some (PInt 0) then Some 1 else Some 0)"
proof -
  have ix: "\<forall>a\<in>set (enumerate (Suc 0) ps). fst a \<noteq> 0"
    by (auto simp: in_set_enumerate_eq)
  from assms show ?thesis
    using build_item_str_flag_keep[OF _ ix] by simp
qed

lemma readable_sorted:
  "readable w pats (sort_key k files) = readable w pats files"
  by (simp add: readable_def list_all_iff)

lemma panel_loop_member:
  "panel_loop w item width duration inspect logs = Inr rows \<Longrightarrow> (one, files) \<in> set logs \<Longrightarrow>
   panel_item w item width duration inspect one files = Inr (Some row) \<Longrightarrow> row \<in> set rows"
proof (induction logs arbitrary: rows)
  case Nil then show ?case by simp
next
  case (Cons a logs)
  obtain one' files' where a: "a = (one', files')" by (cases a)
  from Cons.prems(1) obtain r rows' where
    r: "panel_item w item width duration inspect one' files' = Inr r"
    and l: "panel_loop w item width duration inspect logs = Inr rows'"
    and rows: "rows = (case r of None \<Rightarrow> rows' | Some row \<Rightarrow> row # rows')"
    by (auto simp: a split: sum.splits)
  show ?case
  proof (cases "(one, files) = (one', files')")
    case True
    then show ?thesis using r Cons.prems(3) rows by simp
  next
    case False
    then have "(one, files) \<in> set logs" using Cons.prems(2) by (auto simp: a)
    from Cons.IH[OF l this Cons.prems(3)] show ?thesis using rows by (cases r) auto
  qed
qed

lemma setdefault_append_new:
  "\<exists>vs. (k, vs) \<in> set (setdefault_append d k v) \<and> v \<in> set vs"
proof (cases "k \<in> fst ` set d")
  case True
  then obtain vs0 where m: "(k, vs0) \<in> set d" by auto
  let ?f = "\<lambda>(k', vs). if k' = k then (k', vs @ [v]) else (k', vs)"
  have "?f (k, vs0) \<in> set (map ?f d)" using m unfolding set_map by (rule imageI)
  then have "(k, vs0 @ [v]) \<in> set (setdefault_append d k v)"
    using True by (simp add: setdefault_append_def)
  then show ?thesis by (intro exI[of _ "vs0 @ [v]"]) simp
next
  case False
  then show ?thesis by (intro exI[of _ "[v]"]) (simp add: setdefault_append_def)
qed

lemma setdefault_append_old:
  assumes "(k', vs) \<in> set d" "v' \<in> set vs"
  shows "\<exists>vs'. (k', vs') \<in> set (setdefault_append d k v) \<and> v' \<in> set vs'"
proof (cases "k \<in> fst ` set d")
  case True
  let ?f = "\<lambda>(k', vs). if k' = k then (k', vs @ [v]) else (k', vs)"
  have m: "?f (k', vs) \<in> set (map ?f d)"
    using assms(1) unfolding set_map by (rule imageI)
  have s: "setdefault_append d k v = map ?f d" using True by (simp add: setdefault_append_def)
  show ?thesis
  proof (cases "k' = k")
    case True
    then have "(k', vs @ [v]) \<in> set (setdefault_append d k v)" using m s by simp
    then show ?thesis using assms(2) by (intro exI[of _ "vs @ [v]"]) simp
  next
    case False
    then have "(k', vs) \<in> set (setdefault_append d k v)" using m s by simp
    then show ?thesis using assms(2) by (intro exI[of _ vs]) simp
  qed
next
  case False
  then have "(k', vs) \<in> set (setdefault_append d k v)"
    using assms(1) by (simp add: setdefault_append_def)
  then show ?thesis using assms(2) by (intro exI[of _ vs]) simp
qed

lemma recs_old:
  "(k, vs) \<in> set d \<Longrightarrow> v \<in> set vs \<Longrightarrow>
   \<exists>vs'. (k, vs') \<in> set (foldl (\<lambda>recs r. setdefault_append recs (row_flag r) (row_lines r)) d rows)
      \<and> v \<in> set vs'"
proof (induction rows arbitrary: d vs)
  case Nil then show ?case by auto
next
  case (Cons r rows)
  from setdefault_append_old[OF Cons.prems, of "row_flag r" "row_lines r"]
  obtain vs' where "(k, vs') \<in> set (setdefault_append d (row_flag r) (row_lines r))" "v \<in> set vs'"
    by blast
  from Cons.IH[OF this] show ?case by simp
qed

lemma recs_member:
  "row \<in> set rows \<Longrightarrow>
   \<exists>vs. (row_flag row, vs) \<in> set (foldl (\<lambda>recs r. setdefault_append recs (row_flag r) (row_lines r)) d rows)
      \<and> row_lines row \<in> set vs"
proof (induction rows arbitrary: d)
  case Nil then show ?case by simp
next
  case (Cons r rows)
  show ?case
  proof (cases "row = r")
    case True
    from setdefault_append_new[of "row_flag r" d "row_lines r"]
    obtain vs where "(row_flag r, vs) \<in> set (setdefault_append d (row_flag r) (row_lines r))"
      "row_lines r \<in> set vs" by blast
    from recs_old[OF this] show ?thesis by (simp add: True)
  next
    case False
    then have "row \<in> set rows" using Cons.prems by simp
    from Cons.IH[OF this] show ?thesis by simp
  qed
qed

lemma view_member:
  assumes "panel_rows w tm tag width duration inspect = Inr rows" "row \<in> set rows"
  shows "\<exists>flags strs i. group_panel_view w tm tag width duration inspect = Inr (flags, strs)
           \<and> i < length flags \<and> length strs = length flags
           \<and> flags ! i = row_flag row \<and> row_lines row \<in> set (strs ! i)"
proof -
  define recs where "recs = foldl (\<lambda>recs r. setdefault_append recs (row_flag r) (row_lines r)) [] rows"
  define ord where "ord = sort_key fst recs"
  from recs_member[OF assms(2), of "[]"] obtain vs where
    vs: "(row_flag row, vs) \<in> set recs" "row_lines row \<in> set vs" unfolding recs_def by blast
  have "set ord = set recs" unfolding ord_def by simp
  then have "(row_flag row, vs) \<in> set ord" using vs(1) by simp
  then obtain i where i: "i < length ord" "ord ! i = (row_flag row, vs)"
    by (metis in_set_conv_nth)
  have g: "group_panel_view w tm tag width duration inspect = Inr (map fst ord, map snd ord)"
    unfolding group_panel_view_def assms(1) ord_def recs_def by (simp only: sum.case Let_def)
  have a: "i < length (map fst ord)" using i(1) by simp
  have b: "length (map snd ord) = length (map fst ord)" by simp
  have c: "map fst ord ! i = row_flag row" using i by simp
  have d: "row_lines row \<in> set (map snd ord ! i)" using i vs(2) by simp
  show ?thesis
    by (rule exI[of _ "map fst ord"], rule exI[of _ "map snd ord"], rule exI[of _ i])
       (rule conjI[OF g conjI[OF a conjI[OF b conjI[OF c d]]]])
qed

section \<open>Identities without any match\<close>


lemma setdefault_append_nonempty:
  "\<forall>kv\<in>set d. snd kv \<noteq> [] \<Longrightarrow> \<forall>kv\<in>set (setdefault_append d k v). snd kv \<noteq> []"
  by (auto simp: setdefault_append_def split: if_splits)

lemma group_files_nonempty:
  "group_files w t logs cs = Inr logs' \<Longrightarrow> \<forall>kv\<in>set logs. snd kv \<noteq> [] \<Longrightarrow>
   \<forall>kv\<in>set logs'. snd kv \<noteq> []"
proof (induction cs arbitrary: logs)
  case Nil then show ?case by simp
next
  case (Cons c cs)
  from Cons.prems(1) obtain ok nm where m: "match_file w t c = Inr (ok, nm)"
    by (auto split: sum.splits)
  show ?case
  proof (cases "ok \<and> nm \<noteq> None")
    case True
    then obtain n where n: "ok" "nm = Some n" by auto
    have "group_files w t (setdefault_append logs n c) cs = Inr logs'"
      using Cons.prems(1) by (simp add: m n)
    from Cons.IH[OF this setdefault_append_nonempty[OF Cons.prems(2)]] show ?thesis .
  next
    case False
    then have "group_files w t logs cs = Inr logs'"
      using Cons.prems(1) by (cases ok; cases nm) (simp_all add: m)
    from Cons.IH[OF this Cons.prems(2)] show ?thesis .
  qed
qed

lemma effective_patterns_nonempty: "effective_patterns item \<noteq> []"
  by (simp add: effective_patterns_def)

lemma panel_item_empty:
  assumes ne: "files \<noteq> []"
    and st: "stat_failure w files = None"
    and ns: "\<not> skipped item duration inspect one (idle_seconds w one files)"
    and rd: "readable w (effective_patterns item) files"
    and nm: "\<forall>f\<in>set files. \<forall>p\<in>set (effective_patterns item). \<not> matches w p f"
  shows "panel_item w item width duration inspect one files = Inr (Some (empty_row w inspect one files))"
proof -
  let ?P = "effective_patterns item"
  define fns where "fns = sort_key (\<lambda>x. - mtime w x) files"
  have sf: "set fns = set files" and lf: "length fns = length files" by (simp_all add: fns_def)
  then have "fns \<noteq> []" using ne by auto
  then obtain newest rest where c: "fns = newest # rest" by (cases fns) auto
  have hd: "hd fns = newest" by (simp add: c)
  have "newest \<in> set files" using sf c by auto
  from stat_ok_mtime[OF st this] have gm: "getmtime w newest = Inr (mtime w newest)" .
  have rd': "readable w ?P fns" unfolding fns_def readable_sorted by (rule rd)
  from probe_total[OF rd'] obtain found opened where
    p: "probe w ?P fns = Inr (found, opened)" by blast
  have nm': "\<forall>f\<in>set fns. \<forall>p\<in>set ?P. \<not> matches w p f" using nm sf by simp
  have f: "found = Map.empty" by (rule probe_nothing[OF p nm'])
  have "\<not> (\<forall>p\<in>set ?P. found p \<noteq> None)"
    using effective_patterns_nonempty[of item] f by (cases ?P) auto
  then have "length opened = length fns" using probe_opened(2)[OF p] by blast
  then have o: "opened = fns" using probe_opened(1)[OF p] by simp
  have z: "0 \<in> fst ` set (enumerate 0 ?P)"
    using effective_patterns_nonempty[of item] by (cases ?P) (auto simp: image_iff)
  have b: "build_item_str Map.empty width (enumerate 0 ?P) None [] = Inr (Some 0, [])"
    using z by (simp add: build_item_str_empty)
  have ns': "\<not> skipped item duration inspect one (py_int (float_sub w (time_now w one) (mtime w newest)))"
    using ns by (simp add: idle_seconds_def fns_def[symmetric] hd)
  show ?thesis
    unfolding panel_item_def empty_row_def idle_seconds_def Let_def fns_def[symmetric] st
    unfolding c
    using ns' by (simp add: gm p[unfolded c] f o[unfolded c] b colour_lines_def)
qed

text \<open>
  C8. An identity found by the discovery that is not skipped, whose files can all be
  examined and read and match none of the effective patterns, still gets a row: nothing is found for it,
  its flag is 0 (ongoing), its only line is the header, and whenever the scan of the group
  returns, the row is among its rows and its lines are in the list returned under flag 0.
\<close>

theorem unresolved_identity_row:
  assumes k: "getitem tm tag = Inr item"
    and g: "group_files w (fnp item) [] (candidates w (paths item)) = Inr logs"
    and m: "(one, files) \<in> set logs"
    and st: "stat_failure w files = None"
    and ns: "\<not> skipped item duration inspect one (idle_seconds w one files)"
    and rd: "readable w (effective_patterns item) files"
    and nm: "\<forall>f\<in>set files. \<forall>p\<in>set (effective_patterns item). \<not> matches w p f"
  shows "panel_item w item width duration inspect one files
           = Inr (Some (empty_row w inspect one files))
       \<and> row_found (empty_row w inspect one files) = Map.empty
       \<and> row_flag (empty_row w inspect one files) = Some 0
       \<and> (\<forall>rows. panel_rows w tm tag width duration inspect = Inr rows \<longrightarrow>
             empty_row w inspect one files \<in> set rows
             \<and> (\<exists>flags strs i.
                   group_panel_view w tm tag width duration inspect = Inr (flags, strs)
                   \<and> i < length flags \<and> flags ! i = Some 0
                   \<and> row_lines (empty_row w inspect one files) \<in> set (strs ! i)))"
proof -
  let ?row = "empty_row w inspect one files"
  have ne: "files \<noteq> []"
    using group_files_nonempty[OF g] m by fastforce
  have a: "panel_item w item width duration inspect one files = Inr (Some ?row)"
    by (rule panel_item_empty[OF ne st ns rd nm])
  have b: "row_found ?row = Map.empty" "row_flag ?row = Some 0"
    by (simp_all add: empty_row_def Let_def)
  have c: "?row \<in> set rows
       \<and> (\<exists>flags strs i.
             group_panel_view w tm tag width duration inspect = Inr (flags, strs)
             \<and> i < length flags \<and> flags ! i = Some 0 \<and> row_lines ?row \<in> set (strs ! i))"
    if r: "panel_rows w tm tag width duration inspect = Inr rows" for rows
  proof -
    have l: "panel_loop w item width duration inspect (sort_key fst logs) = Inr rows"
      using r by (simp add: panel_rows_def k g)
    have "(one, files) \<in> set (sort_key fst logs)" using m by simp
    from panel_loop_member[OF l this a] have mem: "?row \<in> set rows" .
    from view_member[OF r mem] show ?thesis using mem b(2) by auto
  qed
  show ?thesis using a b c by blast
qed

lemma quiet_candidates: "candidates quiet_world (paths demo_item) = [''/logs/run1.log'']"
  by (simp add: candidates_def quiet_world_def table_world_def demo_item_def walk_def os_path_join_def)

lemma quiet_match:
  "match_file quiet_world ''{name}.log'' ''/logs/run1.log'' = Inr (True, Some ''/logs/run1'')"
  by (simp add: quiet_world_def eval_match_file)

lemma quiet_logs:
  "group_files quiet_world (fnp demo_item) [] (candidates quiet_world (paths demo_item)) =
     Inr [(''/logs/run1'', [''/logs/run1.log''])]"
  unfolding quiet_candidates by (simp add: demo_item_def quiet_match setdefault_append_def)

theorem unresolved_identity_row_witness:
  "panel_item quiet_world demo_item None (Some 86400) None ''/logs/run1'' [''/logs/run1.log'']
     = Inr (Some (empty_row quiet_world None ''/logs/run1'' [''/logs/run1.log'']))
   \<and> row_lines (empty_row quiet_world None ''/logs/run1'' [''/logs/run1.log''])
       = [header_line ''/logs/run1'' 10]
   \<and> (\<exists>flags strs i.
         group_panel_view quiet_world (single_tm demo_item) ''g'' None (Some 86400) None = Inr (flags, strs)
         \<and> i < length flags \<and> flags ! i = Some 0
         \<and> [header_line ''/logs/run1'' 10] \<in> set (strs ! i))"
proof -
  let ?one = "''/logs/run1''" and ?files = "[''/logs/run1.log'']"
  let ?row = "empty_row quiet_world None ?one ?files"
  have m: "(?one, ?files) \<in> set [(''/logs/run1'', [''/logs/run1.log''])]" by simp
  have st: "stat_failure quiet_world ?files = None"
    by (simp add: quiet_world_def table_world_def)
  have ns: "\<not> skipped demo_item (Some 86400) None ?one (idle_seconds quiet_world ?one ?files)"
    by (simp add: skipped_def idle_seconds_def mtime_def py_int_def quiet_world_def table_world_def demo_item_def)
  have rd: "readable quiet_world (effective_patterns demo_item) ?files"
    by (simp add: readable_def quiet_world_def table_world_def effective_patterns_def demo_item_def)
  have nm: "\<forall>f\<in>set ?files. \<forall>p\<in>set (effective_patterns demo_item). \<not> matches quiet_world p f"
    by (simp add: matches_def last_match_def hit_def results_def quiet_world_def table_world_def
        effective_patterns_def demo_item_def)
  note th = unresolved_identity_row[OF demo_getitem quiet_logs m st ns rd nm, of None]
  have a: "panel_item quiet_world demo_item None (Some 86400) None ?one ?files = Inr (Some ?row)"
    by (rule th[THEN conjunct1])
  have l: "row_lines ?row = [header_line ?one 10]"
    by (simp add: empty_row_def idle_seconds_def mtime_def py_int_def quiet_world_def table_world_def)
  have r: "panel_rows quiet_world (single_tm demo_item) ''g'' None (Some 86400) None = Inr [?row]"
    by (simp add: panel_rows_def demo_getitem quiet_logs a)
  from th[THEN conjunct2, THEN conjunct2, THEN conjunct2, THEN spec, THEN mp, OF r, THEN conjunct2]
  have v: "\<exists>flags strs i.
         group_panel_view quiet_world (single_tm demo_item) ''g'' None (Some 86400) None = Inr (flags, strs)
         \<and> i < length flags \<and> flags ! i = Some 0
         \<and> [header_line ?one 10] \<in> set (strs ! i)"
    unfolding l .
  show ?thesis by (rule conjI[OF a conjI[OF l v]])
qed

section \<open>Files that cannot be read\<close>


lemma probe_loop_fail:
  "read_text w f = Inl e \<Longrightarrow> readable w pats pre \<Longrightarrow>
   remain = int (length (unresolved found pats)) \<Longrightarrow>
   \<exists>p\<in>set pats. found p = None \<and> (\<forall>g\<in>set pre. \<not> matches w p g) \<Longrightarrow>
   probe_loop w pats found ptr remain opened (pre @ f # post) = Inl e"
proof (induction pre arbitrary: found ptr remain opened)
  case Nil
  then have "unresolved found pats \<noteq> []" by (auto simp: unresolved_Nil_iff)
  then have "remain > 0" using Nil.prems(3) by simp
  then show ?case using Nil.prems(1) by simp
next
  case (Cons g pre)
  from Cons.prems(4) obtain p where p: "p \<in> set pats" "found p = None"
    "\<not> matches w p g" "\<forall>h\<in>set pre. \<not> matches w p h" by auto
  then have "unresolved found pats \<noteq> []" by (auto simp: unresolved_Nil_iff)
  then have pos: "remain > 0" using Cons.prems(3) by simp
  from Cons.prems(2) obtain t where t: "read_text w g = Inr t"
    "\<forall>q\<in>set pats. \<exists>rs. re_findall w q t = Inr rs" and rp: "readable w pats pre"
    by (auto simp: readable_iff)
  obtain tmp r' where
    s: "scan_patterns w found t (ptr + 1) (enumerate 0 pats) Map.empty remain = Inr (tmp, r')"
    using scan_patterns_total[of "enumerate 0 pats" w t found "ptr + 1" Map.empty remain] t(2)
    by (auto simp: snd_set_enumerate)
  note inv' = one_file_inv[OF s Cons.prems(3)]
  have "\<not> hit w p t" using p(3) by (auto simp: matches_def last_match_file[OF t(1)] split: if_splits)
  then have "tmp p = None" using one_file_dom[OF s Cons.prems(3), of p] by auto
  then have "(found ++ tmp) p = None" using p(2) by (simp add: map_add_def)
  then have ex: "\<exists>p\<in>set pats. (found ++ tmp) p = None \<and> (\<forall>g\<in>set pre. \<not> matches w p g)"
    using p(1,4) by blast
  from Cons.IH[OF Cons.prems(1) rp inv' ex]
  show ?case using pos by (simp add: t(1) s)
qed

lemma probe_fail:
  assumes "read_text w f = Inl e" "readable w pats pre"
    "\<exists>p\<in>set pats. \<forall>g\<in>set pre. \<not> matches w p g"
  shows "probe w pats (pre @ f # post) = Inl e"
  unfolding probe_def using assms(3)
  by (intro probe_loop_fail[OF assms(1,2) probe_inv]) simp

lemma panel_loop_fail:
  "(one, files) \<in> set logs \<Longrightarrow> panel_item w item width duration inspect one files = Inl e \<Longrightarrow>
   \<exists>e'. panel_loop w item width duration inspect logs = Inl e'"
proof (induction logs)
  case Nil then show ?case by simp
next
  case (Cons a logs)
  obtain one' files' where a: "a = (one', files')" by (cases a)
  show ?case
  proof (cases "(one, files) = (one', files')")
    case True
    then show ?thesis using Cons.prems(2) by (simp add: a)
  next
    case False
    then have "(one, files) \<in> set logs" using Cons.prems(1) by (auto simp: a)
    from Cons.IH[OF this Cons.prems(2)] obtain e' where
      "panel_loop w item width duration inspect logs = Inl e'" by blast
    then show ?thesis by (simp add: a split: sum.splits)
  qed
qed


text \<open>
  C9, as the code has it. The probe does not handle a file that cannot be read. When an
  identity found by the discovery is not skipped and, in the order of decreasing
  modification time, one of its files cannot be read while the files before it can and
  leave some pattern without a match, the file is opened, the exception of the read
  leaves the probe of that identity, and the scan of the group raises an exception
  instead of returning rows.
\<close>

theorem unreadable_file_aborts:
  assumes k: "getitem tm tag = Inr item"
    and g: "group_files w (fnp item) [] (candidates w (paths item)) = Inr logs"
    and m: "(one, files) \<in> set logs"
    and st: "stat_failure w files = None"
    and ns: "\<not> skipped item duration inspect one (idle_seconds w one files)"
    and srt: "sort_key (\<lambda>x. - mtime w x) files = pre @ f # post"
    and rd: "readable w (effective_patterns item) pre"
    and un: "\<exists>p\<in>set (effective_patterns item). \<forall>g\<in>set pre. \<not> matches w p g"
    and bad: "read_text w f = Inl e"
  shows "panel_item w item width duration inspect one files = Inl e
       \<and> (\<exists>e'. panel_rows w tm tag width duration inspect = Inl e'
                \<and> group_panel_view w tm tag width duration inspect = Inl e')"
proof -
  obtain newest rest where c: "pre @ f # post = newest # rest" by (cases pre) auto
  have "newest \<in> set (sort_key (\<lambda>x. - mtime w x) files)" by (simp add: srt c)
  then have "newest \<in> set files" by simp
  from stat_ok_mtime[OF st this] have gm: "getmtime w newest = Inr (mtime w newest)" .
  have ns': "\<not> skipped item duration inspect one (py_int (float_sub w (time_now w one) (mtime w newest)))"
    using ns by (simp add: idle_seconds_def srt c)
  have p: "probe w (effective_patterns item) (newest # rest) = Inl e"
    using probe_fail[OF bad rd un, of post] by (simp add: c)
  have a: "panel_item w item width duration inspect one files = Inl e"
    unfolding panel_item_def Let_def st srt c using ns' by (simp add: gm p)
  have "(one, files) \<in> set (sort_key fst logs)" using m by simp
  from panel_loop_fail[OF this a] obtain e' where
    l: "panel_loop w item width duration inspect (sort_key fst logs) = Inl e'" by blast
  have r: "panel_rows w tm tag width duration inspect = Inl e'"
    by (simp add: panel_rows_def k g l)
  have v: "group_panel_view w tm tag width duration inspect = Inl e'"
    by (simp add: group_panel_view_def r)
  show ?thesis using a r v by blast
qed

lemma unreadable_candidates:
  "candidates unreadable_world (paths demo_item) = [''/logs/a.log'', ''/logs/b.log'']"
  by (simp add: candidates_def unreadable_world_def table_world_def demo_item_def walk_def os_path_join_def)

lemma unreadable_match:
  "match_file unreadable_world ''{name}.log'' ''/logs/a.log'' = Inr (True, Some ''/logs/a'')"
  "match_file unreadable_world ''{name}.log'' ''/logs/b.log'' = Inr (True, Some ''/logs/b'')"
  by (simp_all add: unreadable_world_def eval_match_file)

lemma unreadable_logs:
  "group_files unreadable_world (fnp demo_item) [] (candidates unreadable_world (paths demo_item)) =
     Inr [(''/logs/a'', [''/logs/a.log'']), (''/logs/b'', [''/logs/b.log''])]"
  unfolding unreadable_candidates by (simp add: demo_item_def unreadable_match setdefault_append_def)

lemma blocked_candidates:
  "candidates blocked_world (paths ext_item) = [''/logs/run1.err'', ''/logs/run1.log'', ''/logs/run1.out'']"
  by (simp add: candidates_def blocked_world_def table_world_def ext_item_def walk_def os_path_join_def)

lemma blocked_match:
  "match_file blocked_world ''{name}.{ext}'' ''/logs/run1.err'' = Inr (True, Some ''/logs/run1'')"
  "match_file blocked_world ''{name}.{ext}'' ''/logs/run1.log'' = Inr (True, Some ''/logs/run1'')"
  "match_file blocked_world ''{name}.{ext}'' ''/logs/run1.out'' = Inr (True, Some ''/logs/run1'')"
  by (simp_all add: blocked_world_def match_file_def table_world_def replace_def parse_name_ext_def)

lemma blocked_logs:
  "group_files blocked_world (fnp ext_item) [] (candidates blocked_world (paths ext_item)) =
     Inr [(''/logs/run1'', [''/logs/run1.err'', ''/logs/run1.log'', ''/logs/run1.out''])]"
  unfolding blocked_candidates by (simp add: ext_item_def blocked_match setdefault_append_def)

lemma ext_getitem: "getitem (single_tm ext_item) ''g'' = Inr ext_item"
  by (simp add: getitem_def single_tm_def)

lemma blocked_sorted:
  "sort_key (\<lambda>x. - mtime blocked_world x) [''/logs/run1.err'', ''/logs/run1.log'', ''/logs/run1.out'']
     = [''/logs/run1.out''] @ ''/logs/run1.log'' # [''/logs/run1.err'']"
  by (simp add: mtime_def blocked_world_def table_world_def)

theorem unreadable_file_aborts_witness:
  "panel_item blocked_world ext_item None (Some 86400) None ''/logs/run1''
       [''/logs/run1.err'', ''/logs/run1.log'', ''/logs/run1.out'']
     = Inl (OSError ''/logs/run1.log'')
   \<and> (\<exists>e'. panel_rows blocked_world (single_tm ext_item) ''g'' None (Some 86400) None = Inl e'
          \<and> group_panel_view blocked_world (single_tm ext_item) ''g'' None (Some 86400) None = Inl e')"
proof -
  let ?one = "''/logs/run1''"
  let ?files = "[''/logs/run1.err'', ''/logs/run1.log'', ''/logs/run1.out'']"
  have m: "(?one, ?files) \<in> set [(''/logs/run1'', ?files)]"
    by simp
  have st: "stat_failure blocked_world ?files = None"
    by (simp add: blocked_world_def table_world_def)
  have ns: "\<not> skipped ext_item (Some 86400) None ?one (idle_seconds blocked_world ?one ?files)"
    unfolding idle_seconds_def blocked_sorted
    by (simp add: skipped_def mtime_def py_int_def blocked_world_def table_world_def ext_item_def)
  have rd: "readable blocked_world (effective_patterns ext_item) [''/logs/run1.out'']"
    by (simp add: readable_def blocked_world_def table_world_def effective_patterns_def ext_item_def)
  have "\<forall>g\<in>set [''/logs/run1.out'']. \<not> matches blocked_world ''done'' g"
    by (simp add: matches_def last_match_def hit_def results_def blocked_world_def table_world_def)
  moreover have "''done'' \<in> set (effective_patterns ext_item)"
    by (simp add: effective_patterns_def ext_item_def)
  ultimately have un: "\<exists>p\<in>set (effective_patterns ext_item).
      \<forall>g\<in>set [''/logs/run1.out'']. \<not> matches blocked_world p g" by blast
  have bad: "read_text blocked_world ''/logs/run1.log'' = Inl (OSError ''/logs/run1.log'')"
    by (simp add: blocked_world_def table_world_def)
  show ?thesis
    by (rule unreadable_file_aborts[OF ext_getitem blocked_logs m st ns blocked_sorted rd un bad])
qed

theorem unreadable_file_counterexample:
  "group_panel_view unreadable_world (single_tm demo_item) ''g'' None (Some 86400) None
     = Inl (OSError ''/logs/a.log'')"
proof -
  have a: "panel_item unreadable_world demo_item None (Some 86400) None ''/logs/a'' [''/logs/a.log'']
     = Inl (OSError ''/logs/a.log'')"
    by (simp add: eval_panel_item unreadable_world_def demo_item_def)
  have s: "sort_key fst [(''/logs/a'', [''/logs/a.log'']), (''/logs/b'', [''/logs/b.log''])]
     = [(''/logs/a'', [''/logs/a.log'']), (''/logs/b'', [''/logs/b.log''])]"
    by simp
  show ?thesis
    by (simp add: group_panel_view_def panel_rows_def demo_getitem unreadable_logs s a)
qed

section \<open>The ending flag and watched files\<close>


lemma panel_item_flag:
  assumes "panel_item w item width duration inspect one files = Inr (Some row)"
  shows "row_flag row = (if row_found row (ending item) = Some (PInt 0) then Some 1 else Some 0)"
proof -
  have e: "effective_patterns item =
      ending item # ((if builtin_func item then [epoch_pattern, iter_pattern, loss_pattern, eta_pattern] else [])
        @ patterns item)" by (simp add: effective_patterns_def)
  from assms obtain found opened flag strs where
    b: "build_item_str found width (enumerate 0 (effective_patterns item)) None [] = Inr (flag, strs)"
    and r: "row_flag row = flag" "row_found row = found"
    by (auto simp: panel_item_def Let_def split: option.splits list.splits if_splits sum.splits prod.splits)
  from build_item_str_flag[OF b[unfolded e]] r show ?thesis by simp
qed

lemma probe_ending_later:
  assumes p: "probe w pats (newest # rest) = Inr (found, opened)"
    and n: "\<not> matches w (hd pats) newest" and ne: "pats \<noteq> []"
  shows "found (hd pats) \<noteq> Some (PInt 0)"
proof (cases "hd pats \<in> set (tl pats)")
  case True
  from probe_loop_tl[OF p[unfolded probe_def] probe_inv True]
  show ?thesis by (auto split: option.splits)
next
  case False
  from probe_loop_hd[OF p[unfolded probe_def] probe_inv ne False]
  show ?thesis using n by (auto split: if_splits)
qed

lemma probe_ending_newest:
  assumes p: "probe w pats (newest # rest) = Inr (found, opened)"
    and n: "matches w (hd pats) newest" and ne: "pats \<noteq> []" and d: "hd pats \<notin> set (tl pats)"
  shows "found (hd pats) = Some (PInt 0)"
  using probe_loop_hd[OF p[unfolded probe_def] probe_inv ne d] n by simp

lemma panel_item_probe:
  assumes "panel_item w item width duration inspect one files = Inr (Some row)"
  obtains newest rest where "sort_key (\<lambda>x. - mtime w x) files = newest # rest"
    "probe w (effective_patterns item) (newest # rest) = Inr (row_found row, row_opened row)"
  using assms
  by (auto simp: panel_item_def Let_def split: option.splits list.splits if_splits sum.splits prod.splits)

lemma ending_flag_sound:
  assumes r: "panel_item w item width duration inspect one files = Inr (Some row)"
    and n: "\<not> matches w (ending item) (hd (sort_key (\<lambda>x. - mtime w x) files))"
  shows "row_flag row = Some 0"
proof -
  have h: "hd (effective_patterns item) = ending item" by (simp add: effective_patterns_def)
  from panel_item_probe[OF r] obtain newest rest where
    s: "sort_key (\<lambda>x. - mtime w x) files = newest # rest" and
    p: "probe w (effective_patterns item) (newest # rest) = Inr (row_found row, row_opened row)"
    by blast
  from probe_ending_later[OF p _ effective_patterns_nonempty] n
  have "row_found row (ending item) \<noteq> Some (PInt 0)" by (simp add: h s)
  then show ?thesis using panel_item_flag[OF r] by simp
qed

lemma ending_flag_distinct:
  assumes r: "panel_item w item width duration inspect one files = Inr (Some row)"
    and d: "ending item \<notin> set (tl (effective_patterns item))"
  shows "(row_flag row = Some 1) = matches w (ending item) (hd (sort_key (\<lambda>x. - mtime w x) files))"
proof -
  have h: "hd (effective_patterns item) = ending item" by (simp add: effective_patterns_def)
  from panel_item_probe[OF r] obtain newest rest where
    s: "sort_key (\<lambda>x. - mtime w x) files = newest # rest" and
    p: "probe w (effective_patterns item) (newest # rest) = Inr (row_found row, row_opened row)"
    by blast
  show ?thesis
  proof (cases "matches w (ending item) newest")
    case True
    from probe_ending_newest[OF p _ effective_patterns_nonempty] True d
    have "row_found row (ending item) = Some (PInt 0)" by (simp add: h)
    then show ?thesis using panel_item_flag[OF r] True by (simp add: s)
  next
    case False
    then show ?thesis using ending_flag_sound[OF r] by (simp add: s)
  qed
qed

lemma file_root_walk: "fs_root w path = Some File \<Longrightarrow> walk w path = []"
  by (simp add: walk_def)

lemma file_root_no_candidates: "fs_root w path = Some File \<Longrightarrow> candidates w [path] = []"
  by (simp add: candidates_def file_root_walk)


lemma dup_candidates: "candidates dup_world (paths dup_item) = [''/logs/run1.log'']"
  by (simp add: candidates_def dup_world_def table_world_def dup_item_def walk_def os_path_join_def)

lemma dup_match:
  "match_file dup_world ''{name}.log'' ''/logs/run1.log'' = Inr (True, Some ''/logs/run1'')"
  by (simp add: dup_world_def eval_match_file)

lemma dup_logs:
  "group_files dup_world (fnp dup_item) [] (candidates dup_world (paths dup_item)) =
     Inr [(''/logs/run1'', [''/logs/run1.log''])]"
  unfolding dup_candidates by (simp add: dup_item_def dup_match setdefault_append_def)

lemma dup_getitem: "getitem (single_tm dup_item) ''g'' = Inr dup_item"
  by (simp add: getitem_def single_tm_def)

lemma dup_row:
  "\<exists>row. panel_item dup_world dup_item None (Some 86400) None ''/logs/run1'' [''/logs/run1.log'']
            = Inr (Some row)
         \<and> row_flag row = Some 0
         \<and> row_found row ''done'' = Some (PMatch (MStr ''done''))
         \<and> row_lines row = [header_line ''/logs/run1'' 10, '' done'' @ esc @ ''[0m'']"
  by (simp add: eval_panel_item dup_world_def dup_item_def)

text \<open>
  C1 at an input where the code departs from it. The group's own patterns repeat the
  ending \<open>done\<close>. The newest (and only) file of the identity holds the ending, yet the
  value kept for the ending is the matched text, written by the later index of the same
  pattern over the scan index 0, and the row is flagged 0 and returned as ongoing.
\<close>

theorem repeated_ending_not_terminal:
  "matches dup_world (ending dup_item) ''/logs/run1.log''
   \<and> (\<exists>row. panel_rows dup_world (single_tm dup_item) ''g'' None (Some 86400) None = Inr [row]
          \<and> row_found row (ending dup_item) = Some (PMatch (MStr ''done''))
          \<and> row_flag row = Some 0)
   \<and> group_panel_view dup_world (single_tm dup_item) ''g'' None (Some 86400) None
       = Inr ([Some 0], [[[header_line ''/logs/run1'' 10, '' done'' @ esc @ ''[0m'']]])"
proof -
  have a: "matches dup_world (ending dup_item) ''/logs/run1.log''"
    by (simp add: matches_def last_match_def hit_def results_def dup_world_def table_world_def dup_item_def)
  from dup_row obtain row where
    r: "panel_item dup_world dup_item None (Some 86400) None ''/logs/run1'' [''/logs/run1.log'']
            = Inr (Some row)"
    and f: "row_flag row = Some 0"
    and v: "row_found row ''done'' = Some (PMatch (MStr ''done''))"
    and l: "row_lines row = [header_line ''/logs/run1'' 10, '' done'' @ esc @ ''[0m'']"
    by blast
  have p: "panel_rows dup_world (single_tm dup_item) ''g'' None (Some 86400) None = Inr [row]"
    by (simp add: panel_rows_def dup_getitem dup_logs r)
  have e: "ending dup_item = ''done''" by (simp add: dup_item_def)
  have b: "\<exists>row. panel_rows dup_world (single_tm dup_item) ''g'' None (Some 86400) None = Inr [row]
          \<and> row_found row (ending dup_item) = Some (PMatch (MStr ''done''))
          \<and> row_flag row = Some 0"
    unfolding e by (rule exI[of _ row], rule conjI[OF p conjI[OF v f]])
  have c: "group_panel_view dup_world (single_tm dup_item) ''g'' None (Some 86400) None
       = Inr ([Some 0], [[[header_line ''/logs/run1'' 10, '' done'' @ esc @ ''[0m'']]])"
    by (simp add: group_panel_view_def p setdefault_append_def f l)
  show ?thesis by (rule conjI[OF a conjI[OF b c]])
qed

lemma file_root_getitem: "getitem (single_tm file_root_item) ''g'' = Inr file_root_item"
  by (simp add: getitem_def single_tm_def)

text \<open>
  C7 at an input where the code departs from it. The only watched path is a regular
  file whose name fits the template. \<open>os.walk\<close> yields nothing for it, so the file is no
  candidate, no identity is found and the scan returns no row, although the same file is
  found and matched when its directory is watched.
\<close>

theorem file_root_not_discovered:
  "fs_root file_root_world ''/logs/run1.log'' = Some File
   \<and> match_file file_root_world (fnp file_root_item) ''/logs/run1.log'' = Inr (True, Some ''/logs/run1'')
   \<and> candidates file_root_world (paths file_root_item) = []
   \<and> group_panel_view file_root_world (single_tm file_root_item) ''g'' None (Some 86400) None
       = Inr ([], [])"
proof -
  have a: "fs_root file_root_world ''/logs/run1.log'' = Some File"
    by (simp add: file_root_world_def table_world_def)
  have b: "match_file file_root_world (fnp file_root_item) ''/logs/run1.log'' = Inr (True, Some ''/logs/run1'')"
    by (simp add: file_root_world_def file_root_item_def eval_match_file)
  have c: "candidates file_root_world (paths file_root_item) = []"
    using file_root_no_candidates[OF a] by (simp add: file_root_item_def)
  have d: "group_panel_view file_root_world (single_tm file_root_item) ''g'' None (Some 86400) None
       = Inr ([], [])"
    by (simp add: group_panel_view_def panel_rows_def file_root_getitem c)
  show ?thesis by (rule conjI[OF a conjI[OF b conjI[OF c d]]])
qed

section \<open>Template matching\<close>





















end
